theory Spec2Isabelle
  imports Main
begin

unbundle bit_operations_syntax

section \<open>Configuration, engine state and signals\<close>

text \<open>
  The configuration classes live in the module hotkey.config; the listeners only read the
  attributes \<open>keys\<close>, \<open>mode\<close>, \<open>enabled\<close>, \<open>button\<close> and \<open>text\<close> of its entries.
  The mode is a Python string that the listeners compare with the literal "hold"; every other
  value takes the toggle branch.
\<close>

record hotkey_config =
  hk_keys :: "string list"
  hk_mode :: string
  hk_enabled :: bool

record mouse_config =
  mb_button :: string
  mb_mode :: string
  mb_enabled :: bool

record snippet_config =
  snip_keys :: "string list"
  snip_text :: string
  snip_enabled :: bool

text \<open>
  GlobalHotkeySettings exposes three dicts. A Python dict iterates in insertion order and
  holds every key once: each dict is an association list, and the theorems that depend on
  the uniqueness of its keys assume \<open>distinct (map fst _)\<close>.
\<close>

record global_hotkey_settings =
  keyboard_hotkeys :: "(string \<times> hotkey_config) list"
  mouse_hotkeys :: "(string \<times> mouse_config) list"
  text_snippets :: "(string \<times> snippet_config) list"

text \<open>
  The fixed prefixes of the three listener\_error messages of listener.py are non-ASCII
  literals; the signal carries which of them it is, and the text of the exception.
\<close>

datatype error_context = Key_press_error | Key_release_error | Mouse_click_error

datatype signal =
    hotkey_pressed string string
  | mouse_button_event string string
  | snippet_triggered string string
  | listener_error error_context string

text \<open>\<open>_pressed_keys: Set[str]\<close> and \<open>_active_combos: Dict[str, bool]\<close>.\<close>

record engine_state =
  pressed_keys :: "string set"
  active_combos :: "(string \<times> bool) list"

text \<open>The macOS listener keeps a third variable, \<open>last_modifiers\<close>.\<close>

record macos_state = engine_state +
  last_modifiers :: "string set"

definition initial_state :: engine_state where
  "initial_state = \<lparr>pressed_keys = {}, active_combos = []\<rparr>"

definition initial_macos_state :: macos_state where
  "initial_macos_state = \<lparr>pressed_keys = {}, active_combos = [], last_modifiers = {}\<rparr>"

subsection \<open>Dict operations on the active map\<close>

definition has_key :: "(string \<times> bool) list \<Rightarrow> string \<Rightarrow> bool" where
  "has_key d k = (k \<in> set (map fst d))"

primrec dict_set :: "(string \<times> bool) list \<Rightarrow> string \<Rightarrow> bool \<Rightarrow> (string \<times> bool) list" where
  "dict_set [] k v = [(k, v)]"
| "dict_set (kv # d) k v = (if fst kv = k then (k, v) # d else kv # dict_set d k v)"

definition dict_del :: "(string \<times> bool) list \<Rightarrow> string \<Rightarrow> (string \<times> bool) list" where
  "dict_del d k = filter (\<lambda>kv. fst kv \<noteq> k) d"

subsection \<open>A for loop that mutates state and emits signals\<close>

primrec for_each :: "('a \<Rightarrow> 's \<Rightarrow> 's \<times> signal list) \<Rightarrow> 'a list \<Rightarrow> 's \<Rightarrow> 's \<times> signal list" where
  "for_each body [] s = (s, [])"
| "for_each body (x # xs) s =
     (case body x s of (s1, out1) \<Rightarrow>
        (case for_each body xs s1 of (s2, out2) \<Rightarrow> (s2, out1 @ out2)))"

section \<open>The pynput listener (listener.py)\<close>

definition modifier_keys :: "string set" where
  "modifier_keys = {''ctrl'', ''right_ctrl'', ''super'', ''right_super'',
                    ''alt'', ''right_alt'', ''shift'', ''right_shift''}"

text \<open>Body of the loop over keyboard\_hotkeys in \<open>_on_key_press\<close>.\<close>

definition press_hotkey :: "string \<times> hotkey_config \<Rightarrow> engine_state \<Rightarrow> engine_state \<times> signal list" where
  "press_hotkey = (\<lambda>(hotkey_id, config) s.
     if \<not> hk_enabled config then (s, [])
     else if set (hk_keys config) \<subseteq> pressed_keys s then
       (if \<not> has_key (active_combos s) hotkey_id then
          (s\<lparr>active_combos := dict_set (active_combos s) hotkey_id True\<rparr>,
           if hk_mode config = ''hold'' then [hotkey_pressed hotkey_id ''press'']
           else [hotkey_pressed hotkey_id ''toggle''])
        else (s, []))
     else (s, []))"

text \<open>The key of a snippet in \<open>_active_combos\<close>: \<open>f"snippet:{snip_id}"\<close>.\<close>

definition snippet_key :: "string \<Rightarrow> string" where
  "snippet_key snip_id = ''snippet:'' @ snip_id"

text \<open>Body of the loop over text\_snippets in \<open>_on_key_press\<close>.\<close>

definition press_snippet :: "string \<times> snippet_config \<Rightarrow> engine_state \<Rightarrow> engine_state \<times> signal list" where
  "press_snippet = (\<lambda>(snip_id, snip_config) s.
     if \<not> snip_enabled snip_config then (s, [])
     else if set (snip_keys snip_config) = pressed_keys s then
       (let snip_key = snippet_key snip_id in
        if \<not> has_key (active_combos s) snip_key then
          (s\<lparr>active_combos := dict_set (active_combos s) snip_key True\<rparr>,
           [snippet_triggered snip_id (snip_text snip_config)])
        else (s, []))
     else (s, []))"

text \<open>
  The handlers receive a pynput key object and first call \<open>self._normalize_key(key)\<close>.
  The model takes the outcome of that call: \<open>Inr key_name\<close>, or \<open>Inl msg\<close> when the call
  raises. The whole body of each handler is inside \<open>try\<close>, and the \<open>except\<close> branch emits
  listener\_error.
\<close>

definition on_key_press :: "global_hotkey_settings \<Rightarrow> engine_state \<Rightarrow> string + string \<Rightarrow> engine_state \<times> signal list" where
  "on_key_press cfg s nk =
     (case nk of
        Inl e \<Rightarrow> (s, [listener_error Key_press_error e])
      | Inr key_name \<Rightarrow>
          (let s0 = s\<lparr>pressed_keys := insert key_name (pressed_keys s)\<rparr> in
           case for_each press_hotkey (keyboard_hotkeys cfg) s0 of (s1, out1) \<Rightarrow>
           case for_each press_snippet (text_snippets cfg) s1 of (s2, out2) \<Rightarrow>
             (s2, out1 @ out2)))"

text \<open>
  The release guard of \<open>_on_key_release\<close> for a hold-mode entry: the set
  \<open>non_modifier_keys\<close> of the entry, and the test that makes the loop \<open>continue\<close>
  (the released key is a modifier of a combination with a non-modifier key, or another
  non-modifier key of the combination remains in \<open>pressed_keys\<close> without the released one).
\<close>

definition non_modifier_keys :: "string list \<Rightarrow> string set" where
  "non_modifier_keys keys = {k \<in> set keys. k \<notin> modifier_keys}"

definition release_skipped :: "hotkey_config \<Rightarrow> string set \<Rightarrow> string \<Rightarrow> bool" where
  "release_skipped config pressed key_name =
     (hk_mode config = ''hold'' \<and> non_modifier_keys (hk_keys config) \<noteq> {} \<and>
      (key_name \<notin> non_modifier_keys (hk_keys config) \<or>
       (pressed - {key_name}) \<inter> non_modifier_keys (hk_keys config) \<noteq> {}))"

text \<open>Body of the loop over keyboard\_hotkeys in \<open>_on_key_release\<close>.\<close>

definition release_hotkey :: "string \<Rightarrow> string \<times> hotkey_config \<Rightarrow> engine_state \<Rightarrow> engine_state \<times> signal list" where
  "release_hotkey key_name = (\<lambda>(hotkey_id, config) s.
     if has_key (active_combos s) hotkey_id \<and> key_name \<in> set (hk_keys config) then
       (if release_skipped config (pressed_keys s) key_name then (s, [])
        else (s\<lparr>active_combos := dict_del (active_combos s) hotkey_id\<rparr>,
              if hk_mode config = ''hold'' then [hotkey_pressed hotkey_id ''release''] else []))
     else (s, []))"

text \<open>Body of the loop over text\_snippets in \<open>_on_key_release\<close>.\<close>

definition release_snippet :: "string \<Rightarrow> string \<times> snippet_config \<Rightarrow> engine_state \<Rightarrow> engine_state \<times> signal list" where
  "release_snippet key_name = (\<lambda>(snip_id, snip_config) s.
     (let snip_key = snippet_key snip_id in
      if has_key (active_combos s) snip_key \<and> key_name \<in> set (snip_keys snip_config)
      then (s\<lparr>active_combos := dict_del (active_combos s) snip_key\<rparr>, [])
      else (s, [])))"

text \<open>The two loops of \<open>_on_key_release\<close>, before the final \<open>discard\<close>.\<close>

definition release_loops :: "global_hotkey_settings \<Rightarrow> engine_state \<Rightarrow> string \<Rightarrow> engine_state \<times> signal list" where
  "release_loops cfg s key_name =
     (case for_each (release_hotkey key_name) (keyboard_hotkeys cfg) s of (s1, out1) \<Rightarrow>
      case for_each (release_snippet key_name) (text_snippets cfg) s1 of (s2, out2) \<Rightarrow>
        (s2, out1 @ out2))"

definition on_key_release :: "global_hotkey_settings \<Rightarrow> engine_state \<Rightarrow> string + string \<Rightarrow> engine_state \<times> signal list" where
  "on_key_release cfg s nk =
     (case nk of
        Inl e \<Rightarrow> (s, [listener_error Key_release_error e])
      | Inr key_name \<Rightarrow>
          (case release_loops cfg s key_name of (s2, out) \<Rightarrow>
             (s2\<lparr>pressed_keys := pressed_keys s2 - {key_name}\<rparr>, out)))"

text \<open>pynput's \<open>mouse.Button\<close>; the handler only tells \<open>middle\<close> from the rest.\<close>

datatype mouse_button = Button_left | Button_middle | Button_right | Button_other

definition click_mouse_hotkey :: "bool \<Rightarrow> string \<times> mouse_config \<Rightarrow> engine_state \<Rightarrow> engine_state \<times> signal list" where
  "click_mouse_hotkey pressed = (\<lambda>(mb_id, config) s.
     if \<not> mb_enabled config \<or> mb_button config \<noteq> ''middle'' then (s, [])
     else if pressed then
       (if mb_mode config = ''hold'' then (s, [mouse_button_event mb_id ''press''])
        else (s, [mouse_button_event mb_id ''toggle'']))
     else
       (if mb_mode config = ''hold'' then (s, [mouse_button_event mb_id ''release''])
        else (s, [])))"

definition on_mouse_click :: "global_hotkey_settings \<Rightarrow> engine_state \<Rightarrow> mouse_button \<Rightarrow> bool \<Rightarrow> engine_state \<times> signal list" where
  "on_mouse_click cfg s button pressed =
     (if button \<noteq> Button_middle then (s, [])
      else for_each (click_mouse_hotkey pressed) (mouse_hotkeys cfg) s)"

datatype pynput_event =
    Key_press "string + string"
  | Key_release "string + string"
  | Mouse_click mouse_button bool

primrec handle_event :: "global_hotkey_settings \<Rightarrow> engine_state \<Rightarrow> pynput_event \<Rightarrow> engine_state \<times> signal list" where
  "handle_event cfg s (Key_press nk) = on_key_press cfg s nk"
| "handle_event cfg s (Key_release nk) = on_key_release cfg s nk"
| "handle_event cfg s (Mouse_click b p) = on_mouse_click cfg s b p"

text \<open>The listener feeds the handlers one event after the other.\<close>

primrec run_events :: "global_hotkey_settings \<Rightarrow> pynput_event list \<Rightarrow> engine_state \<Rightarrow> engine_state \<times> signal list" where
  "run_events cfg [] s = (s, [])"
| "run_events cfg (ev # evs) s =
     (case handle_event cfg s ev of (s1, out1) \<Rightarrow>
      case run_events cfg evs s1 of (s2, out2) \<Rightarrow> (s2, out1 @ out2))"

section \<open>The macOS listener (listener\_macos.py)\<close>

text \<open>
  The event-flag masks are constants of the Quartz framework (CGEventTypes.h), not of this
  repository: kCGEventFlagMaskShift, kCGEventFlagMaskControl, kCGEventFlagMaskAlternate and
  kCGEventFlagMaskCommand.
\<close>

definition kCGEventFlagMaskShift :: int where "kCGEventFlagMaskShift = 131072"
definition kCGEventFlagMaskControl :: int where "kCGEventFlagMaskControl = 262144"
definition kCGEventFlagMaskAlternate :: int where "kCGEventFlagMaskAlternate = 524288"
definition kCGEventFlagMaskCommand :: int where "kCGEventFlagMaskCommand = 1048576"

definition get_modifier_names :: "int \<Rightarrow> string set" where
  "get_modifier_names flags =
     (if flags AND kCGEventFlagMaskControl \<noteq> 0 then {''control''} else {}) \<union>
     (if flags AND kCGEventFlagMaskCommand \<noteq> 0 then {''command''} else {}) \<union>
     (if flags AND kCGEventFlagMaskAlternate \<noteq> 0 then {''option''} else {}) \<union>
     (if flags AND kCGEventFlagMaskShift \<noteq> 0 then {''shift''} else {})"

definition keycode_map :: "(int \<times> string) list" where
  "keycode_map =
    [(0, ''a''), (1, ''s''), (2, ''d''), (3, ''f''), (4, ''h''), (5, ''g''), (6, ''z''), (7, ''x''),
     (8, ''c''), (9, ''v''), (11, ''b''), (12, ''q''), (13, ''w''), (14, ''e''), (15, ''r''),
     (16, ''y''), (17, ''t''), (18, ''1''), (19, ''2''), (20, ''3''), (21, ''4''), (22, ''6''),
     (23, ''5''), (24, ''=''), (25, ''9''), (26, ''7''), (27, ''-''), (28, ''8''), (29, ''0''),
     (31, ''o''), (32, ''u''), (34, ''i''), (35, ''p''), (37, ''l''), (38, ''j''), (40, ''k''),
     (45, ''n''), (46, ''m''),
     (36, ''enter''), (48, ''tab''), (49, ''space''), (51, ''backspace''), (53, ''esc''),
     (122, ''f1''), (120, ''f2''), (99, ''f3''), (118, ''f4''), (96, ''f5''), (97, ''f6''),
     (98, ''f7''), (100, ''f8''), (101, ''f9''), (109, ''f10''), (103, ''f11''), (111, ''f12'')]"

definition keycode_to_name :: "int \<Rightarrow> string option" where
  "keycode_to_name keycode = map_of keycode_map keycode"

definition key_map :: "(string \<times> string) list" where
  "key_map = [(''ctrl'', ''control''), (''super'', ''command''), (''alt'', ''option''),
              (''shift'', ''shift'')]"

definition convert_keys_to_macos :: "string list \<Rightarrow> string set" where
  "convert_keys_to_macos keys =
     set (map (\<lambda>k. case map_of key_map k of Some m \<Rightarrow> m | None \<Rightarrow> k) keys)"

text \<open>The two loop bodies of \<open>check_hotkeys(all_pressed)\<close>.\<close>

definition check_hotkey :: "string set \<Rightarrow> string \<times> hotkey_config \<Rightarrow> macos_state \<Rightarrow> macos_state \<times> signal list" where
  "check_hotkey all_pressed = (\<lambda>(hotkey_id, config) s.
     if \<not> hk_enabled config then (s, [])
     else if convert_keys_to_macos (hk_keys config) \<subseteq> all_pressed then
       (if \<not> has_key (active_combos s) hotkey_id then
          (s\<lparr>active_combos := dict_set (active_combos s) hotkey_id True\<rparr>,
           if hk_mode config = ''hold'' then [hotkey_pressed hotkey_id ''press'']
           else [hotkey_pressed hotkey_id ''toggle''])
        else (s, []))
     else (s, []))"

definition check_snippet :: "string set \<Rightarrow> string \<times> snippet_config \<Rightarrow> macos_state \<Rightarrow> macos_state \<times> signal list" where
  "check_snippet all_pressed = (\<lambda>(snip_id, snip_config) s.
     if \<not> snip_enabled snip_config then (s, [])
     else
       (let snip_key = snippet_key snip_id in
        if convert_keys_to_macos (snip_keys snip_config) = all_pressed then
          (if \<not> has_key (active_combos s) snip_key then
             (s\<lparr>active_combos := dict_set (active_combos s) snip_key True\<rparr>,
              [snippet_triggered snip_id (snip_text snip_config)])
           else (s, []))
        else (s, [])))"

definition check_hotkeys :: "global_hotkey_settings \<Rightarrow> macos_state \<Rightarrow> string set \<Rightarrow> macos_state \<times> signal list" where
  "check_hotkeys cfg s all_pressed =
     (case for_each (check_hotkey all_pressed) (keyboard_hotkeys cfg) s of (s1, out1) \<Rightarrow>
      case for_each (check_snippet all_pressed) (text_snippets cfg) s1 of (s2, out2) \<Rightarrow>
        (s2, out1 @ out2))"

text \<open>
  \<open>check_releases(released, current)\<close> collects the ids to delete in the list \<open>to_remove\<close>
  while it reads \<open>active_combos\<close>, and deletes them in a third loop. Its second loop runs
  over the keys of \<open>active_combos\<close> and looks the snippet up with \<open>dict.get\<close>.
\<close>

definition release_hotkey_macos :: "string set \<Rightarrow> (string \<times> bool) list \<Rightarrow> string \<times> hotkey_config \<Rightarrow> string list \<Rightarrow> string list \<times> signal list" where
  "release_hotkey_macos released active = (\<lambda>(hotkey_id, config) to_remove.
     if \<not> has_key active hotkey_id then (to_remove, [])
     else if released \<inter> convert_keys_to_macos (hk_keys config) \<noteq> {} then
       (to_remove @ [hotkey_id],
        if hk_mode config = ''hold'' then [hotkey_pressed hotkey_id ''release''] else [])
     else (to_remove, []))"

definition release_snippet_macos :: "global_hotkey_settings \<Rightarrow> string set \<Rightarrow> string \<Rightarrow> string list \<Rightarrow> string list \<times> signal list" where
  "release_snippet_macos cfg released snip_id to_remove =
     (if take 8 snip_id = ''snippet:'' then
        (let real_id = drop 8 snip_id in
         case map_of (text_snippets cfg) real_id of
           None \<Rightarrow> (to_remove, [])
         | Some snip_config \<Rightarrow>
             if released \<inter> convert_keys_to_macos (snip_keys snip_config) \<noteq> {}
             then (to_remove @ [snip_id], [])
             else (to_remove, []))
      else (to_remove, []))"

definition remove_ids :: "(string \<times> bool) list \<Rightarrow> string list \<Rightarrow> (string \<times> bool) list" where
  "remove_ids active to_remove =
     foldl (\<lambda>a hk_id. if has_key a hk_id then dict_del a hk_id else a) active to_remove"

definition check_releases :: "global_hotkey_settings \<Rightarrow> macos_state \<Rightarrow> string set \<Rightarrow> macos_state \<times> signal list" where
  "check_releases cfg s released =
     (case for_each (release_hotkey_macos released (active_combos s)) (keyboard_hotkeys cfg) []
        of (to_remove1, out1) \<Rightarrow>
      case for_each (release_snippet_macos cfg released) (map fst (active_combos s)) to_remove1
        of (to_remove2, out2) \<Rightarrow>
        (s\<lparr>active_combos := remove_ids (active_combos s) to_remove2\<rparr>, out1 @ out2))"

text \<open>The set literal that \<open>event_callback\<close> subtracts from \<open>pressed_keys\<close>.\<close>

definition modifier_names :: "string set" where
  "modifier_names = {''control'', ''command'', ''option'', ''shift''}"

text \<open>The two mouse loops of \<open>event_callback\<close>.\<close>

definition mouse_down_hotkey :: "string \<times> mouse_config \<Rightarrow> macos_state \<Rightarrow> macos_state \<times> signal list" where
  "mouse_down_hotkey = (\<lambda>(mb_id, cfg) s.
     if mb_enabled cfg \<and> mb_button cfg = ''middle'' then
       (if mb_mode cfg = ''hold'' then (s, [mouse_button_event mb_id ''press''])
        else (s, [mouse_button_event mb_id ''toggle'']))
     else (s, []))"

definition mouse_up_hotkey :: "string \<times> mouse_config \<Rightarrow> macos_state \<Rightarrow> macos_state \<times> signal list" where
  "mouse_up_hotkey = (\<lambda>(mb_id, cfg) s.
     if mb_enabled cfg \<and> mb_button cfg = ''middle'' \<and> mb_mode cfg = ''hold''
     then (s, [mouse_button_event mb_id ''release''])
     else (s, []))"

text \<open>
  A Quartz event is read through \<open>CGEventGetFlags\<close> and \<open>CGEventGetIntegerValueField\<close>.
  An event of the model carries the outcome of each of these calls for it: \<open>Inr\<close> the
  integer, or \<open>Inl msg\<close> when the call raises. \<open>Other_event\<close> is any event type that
  \<open>event_callback\<close> has no branch for. The \<open>except\<close> branch of \<open>event_callback\<close> calls
  \<open>LOG.error\<close> and emits no signal; what the \<open>try\<close> body had changed before stays.
\<close>

datatype cg_event =
    Flags_changed "string + int"
  | Key_down "string + int" "string + int"
  | Key_up "string + int" "string + int"
  | Other_mouse_down "string + int"
  | Other_mouse_up "string + int"
  | Other_event

primrec event_callback :: "global_hotkey_settings \<Rightarrow> macos_state \<Rightarrow> cg_event \<Rightarrow> macos_state \<times> signal list" where
  "event_callback cfg s (Flags_changed fl) =
     (case fl of
        Inl e \<Rightarrow> (s, [])
      | Inr flags \<Rightarrow>
          (let current_modifiers = get_modifier_names flags;
               newly_pressed = current_modifiers - last_modifiers s;
               released = last_modifiers s - current_modifiers;
               s0 = s\<lparr>last_modifiers := current_modifiers\<rparr> in
           case (if released \<noteq> {} then check_releases cfg s0 released else (s0, []))
             of (s1, out1) \<Rightarrow>
           (let s2 = s1\<lparr>pressed_keys :=
                     (pressed_keys s1 - modifier_names) \<union> current_modifiers\<rparr> in
            case (if newly_pressed \<noteq> {}
                  then check_hotkeys cfg s2 (pressed_keys s2 \<union> current_modifiers)
                  else (s2, []))
              of (s3, out2) \<Rightarrow> (s3, out1 @ out2))))"
| "event_callback cfg s (Key_down kc fl) =
     (case kc of
        Inl e \<Rightarrow> (s, [])
      | Inr keycode \<Rightarrow>
          (case keycode_to_name keycode of
             None \<Rightarrow> (s, [])
           | Some key_name \<Rightarrow>
               if key_name = [] then (s, [])
               else
                 (let s0 = s\<lparr>pressed_keys := insert key_name (pressed_keys s)\<rparr> in
                  case fl of
                    Inl e \<Rightarrow> (s0, [])
                  | Inr flags \<Rightarrow>
                      check_hotkeys cfg s0 (pressed_keys s0 \<union> get_modifier_names flags))))"
| "event_callback cfg s (Key_up kc fl) =
     (case kc of
        Inl e \<Rightarrow> (s, [])
      | Inr keycode \<Rightarrow>
          (case keycode_to_name keycode of
             None \<Rightarrow> (s, [])
           | Some key_name \<Rightarrow>
               if key_name = [] then (s, [])
               else
                 (case fl of
                    Inl e \<Rightarrow> (s, [])
                  | Inr flags \<Rightarrow>
                      (case check_releases cfg s {key_name} of (s1, out) \<Rightarrow>
                         (s1\<lparr>pressed_keys := pressed_keys s1 - {key_name}\<rparr>, out)))))"
| "event_callback cfg s (Other_mouse_down b) =
     (case b of
        Inl e \<Rightarrow> (s, [])
      | Inr button \<Rightarrow>
          if button = 2 then for_each mouse_down_hotkey (mouse_hotkeys cfg) s else (s, []))"
| "event_callback cfg s (Other_mouse_up b) =
     (case b of
        Inl e \<Rightarrow> (s, [])
      | Inr button \<Rightarrow>
          if button = 2 then for_each mouse_up_hotkey (mouse_hotkeys cfg) s else (s, []))"
| "event_callback cfg s Other_event = (s, [])"

primrec run_callbacks :: "global_hotkey_settings \<Rightarrow> cg_event list \<Rightarrow> macos_state \<Rightarrow> macos_state \<times> signal list" where
  "run_callbacks cfg [] s = (s, [])"
| "run_callbacks cfg (ev # evs) s =
     (case event_callback cfg s ev of (s1, out1) \<Rightarrow>
      case run_callbacks cfg evs s1 of (s2, out2) \<Rightarrow> (s2, out1 @ out2))"

section \<open>Observing the signals of one definition\<close>

text \<open>The signals a run emits for one id, in the order of emission.\<close>

definition is_hotkey_signal :: "string \<Rightarrow> signal \<Rightarrow> bool" where
  "is_hotkey_signal hotkey_id sg = (case sg of hotkey_pressed i a \<Rightarrow> i = hotkey_id | _ \<Rightarrow> False)"

definition is_snippet_signal :: "string \<Rightarrow> signal \<Rightarrow> bool" where
  "is_snippet_signal snip_id sg = (case sg of snippet_triggered i a \<Rightarrow> i = snip_id | _ \<Rightarrow> False)"


definition is_mouse_signal :: "string \<Rightarrow> signal \<Rightarrow> bool" where
  "is_mouse_signal mb_id sg = (case sg of mouse_button_event i a \<Rightarrow> i = mb_id | _ \<Rightarrow> False)"

text \<open>What one entry of mouse\_hotkeys contributes to a press and to a release of the middle button.\<close>

definition mouse_down_signals :: "string \<times> mouse_config \<Rightarrow> signal list" where
  "mouse_down_signals = (\<lambda>(mb_id, c).
     if mb_enabled c \<and> mb_button c = ''middle''
     then [mouse_button_event mb_id (if mb_mode c = ''hold'' then ''press'' else ''toggle'')]
     else [])"

definition mouse_up_signals :: "string \<times> mouse_config \<Rightarrow> signal list" where
  "mouse_up_signals = (\<lambda>(mb_id, c).
     if mb_enabled c \<and> mb_button c = ''middle'' \<and> mb_mode c = ''hold''
     then [mouse_button_event mb_id ''release'']
     else [])"

text \<open>
  The activation signal of a keyboard entry, and the keys that the snippets of a configuration
  occupy in \<open>active_combos\<close>.
\<close>

definition activation_signal :: "string \<Rightarrow> hotkey_config \<Rightarrow> signal" where
  "activation_signal hotkey_id config =
     hotkey_pressed hotkey_id (if hk_mode config = ''hold'' then ''press'' else ''toggle'')"

definition snippet_keys :: "global_hotkey_settings \<Rightarrow> string set" where
  "snippet_keys cfg = (\<lambda>y. snippet_key (fst y)) ` set (text_snippets cfg)"

section \<open>Example configurations\<close>

definition example_mouse_settings :: global_hotkey_settings where
  "example_mouse_settings =
     \<lparr>keyboard_hotkeys = [],
      mouse_hotkeys =
        [(''talk'', \<lparr>mb_button = ''middle'', mb_mode = ''hold'', mb_enabled = True\<rparr>),
         (''mute'', \<lparr>mb_button = ''middle'', mb_mode = ''toggle'', mb_enabled = True\<rparr>),
         (''off'', \<lparr>mb_button = ''middle'', mb_mode = ''hold'', mb_enabled = False\<rparr>)],
      text_snippets = []\<rparr>"

text \<open>
  Words of the claims about event sequences, for the pynput listener: an event is a key-down
  at which every key of an entry is in the set that \<open>_on_key_press\<close> tests (the pressed set
  with the new key); an event releases a key of an entry; some event of a sequence, fed to
  the listener from state \<open>s\<close>, is such a key-down.
\<close>

primrec completes_combo :: "hotkey_config \<Rightarrow> engine_state \<Rightarrow> pynput_event \<Rightarrow> bool" where
  "completes_combo config s (Key_press nk) =
     (case nk of Inl e \<Rightarrow> False
      | Inr key_name \<Rightarrow> set (hk_keys config) \<subseteq> insert key_name (pressed_keys s))"
| "completes_combo config s (Key_release nk) = False"
| "completes_combo config s (Mouse_click b p) = False"

primrec releases_combo_key :: "hotkey_config \<Rightarrow> pynput_event \<Rightarrow> bool" where
  "releases_combo_key config (Key_press nk) = False"
| "releases_combo_key config (Key_release nk) =
     (case nk of Inl e \<Rightarrow> False | Inr key_name \<Rightarrow> key_name \<in> set (hk_keys config))"
| "releases_combo_key config (Mouse_click b p) = False"

primrec combo_completed_in :: "global_hotkey_settings \<Rightarrow> hotkey_config \<Rightarrow> pynput_event list \<Rightarrow> engine_state \<Rightarrow> bool" where
  "combo_completed_in cfg config [] s = False"
| "combo_completed_in cfg config (ev # evs) s =
     (completes_combo config s ev \<or> combo_completed_in cfg config evs (fst (handle_event cfg s ev)))"

text \<open>
  The same words for the macOS listener. \<open>check_hotkeys_arg\<close> is the set that
  \<open>event_callback\<close> passes to \<open>check_hotkeys\<close> for an event (\<open>None\<close> when it does not call
  it), \<open>check_releases_arg\<close> the set of released keys it passes to \<open>check_releases\<close> (empty
  when it does not call it).
\<close>

primrec check_hotkeys_arg :: "macos_state \<Rightarrow> cg_event \<Rightarrow> string set option" where
  "check_hotkeys_arg s (Flags_changed fl) =
     (case fl of Inl e \<Rightarrow> None
      | Inr flags \<Rightarrow>
          if get_modifier_names flags - last_modifiers s \<noteq> {}
          then Some ((pressed_keys s - modifier_names) \<union> get_modifier_names flags)
          else None)"
| "check_hotkeys_arg s (Key_down kc fl) =
     (case kc of Inl e \<Rightarrow> None
      | Inr keycode \<Rightarrow>
          (case keycode_to_name keycode of None \<Rightarrow> None
           | Some key_name \<Rightarrow>
               if key_name = [] then None
               else (case fl of Inl e \<Rightarrow> None
                     | Inr flags \<Rightarrow>
                         Some (insert key_name (pressed_keys s) \<union> get_modifier_names flags))))"
| "check_hotkeys_arg s (Key_up kc fl) = None"
| "check_hotkeys_arg s (Other_mouse_down b) = None"
| "check_hotkeys_arg s (Other_mouse_up b) = None"
| "check_hotkeys_arg s Other_event = None"

primrec check_releases_arg :: "macos_state \<Rightarrow> cg_event \<Rightarrow> string set" where
  "check_releases_arg s (Flags_changed fl) =
     (case fl of Inl e \<Rightarrow> {} | Inr flags \<Rightarrow> last_modifiers s - get_modifier_names flags)"
| "check_releases_arg s (Key_down kc fl) = {}"
| "check_releases_arg s (Key_up kc fl) =
     (case kc of Inl e \<Rightarrow> {}
      | Inr keycode \<Rightarrow>
          (case keycode_to_name keycode of None \<Rightarrow> {}
           | Some key_name \<Rightarrow>
               if key_name = [] then {}
               else (case fl of Inl e \<Rightarrow> {} | Inr flags \<Rightarrow> {key_name})))"
| "check_releases_arg s (Other_mouse_down b) = {}"
| "check_releases_arg s (Other_mouse_up b) = {}"
| "check_releases_arg s Other_event = {}"

definition completes_combo_macos :: "hotkey_config \<Rightarrow> macos_state \<Rightarrow> cg_event \<Rightarrow> bool" where
  "completes_combo_macos config s ev =
     (case check_hotkeys_arg s ev of None \<Rightarrow> False
      | Some all_pressed \<Rightarrow> convert_keys_to_macos (hk_keys config) \<subseteq> all_pressed)"

definition releases_combo_key_macos :: "hotkey_config \<Rightarrow> macos_state \<Rightarrow> cg_event \<Rightarrow> bool" where
  "releases_combo_key_macos config s ev =
     (check_releases_arg s ev \<inter> convert_keys_to_macos (hk_keys config) \<noteq> {})"

primrec combo_completed_in_macos :: "global_hotkey_settings \<Rightarrow> hotkey_config \<Rightarrow> cg_event list \<Rightarrow> macos_state \<Rightarrow> bool" where
  "combo_completed_in_macos cfg config [] s = False"
| "combo_completed_in_macos cfg config (ev # evs) s =
     (completes_combo_macos config s ev
      \<or> combo_completed_in_macos cfg config evs (fst (event_callback cfg s ev)))"

primrec combo_key_released_in_macos :: "global_hotkey_settings \<Rightarrow> hotkey_config \<Rightarrow> cg_event list \<Rightarrow> macos_state \<Rightarrow> bool" where
  "combo_key_released_in_macos cfg config [] s = False"
| "combo_key_released_in_macos cfg config (ev # evs) s =
     (releases_combo_key_macos config s ev
      \<or> combo_key_released_in_macos cfg config evs (fst (event_callback cfg s ev)))"

text \<open>An event for which every Quartz accessor call returns.\<close>

primrec accessors_return :: "cg_event \<Rightarrow> bool" where
  "accessors_return (Flags_changed fl) = (\<not> isl fl)"
| "accessors_return (Key_down kc fl) = (\<not> isl kc \<and> \<not> isl fl)"
| "accessors_return (Key_up kc fl) = (\<not> isl kc \<and> \<not> isl fl)"
| "accessors_return (Other_mouse_down b) = (\<not> isl b)"
| "accessors_return (Other_mouse_up b) = (\<not> isl b)"
| "accessors_return Other_event = True"

text \<open>
  A configuration with a hold-mode combination of two modifiers and a letter, a toggle-mode
  combination and a snippet, and key-down sequences for both listeners that press the first
  combination with an extra key held and the last key repeated (macOS keycode 0 is "a",
  7 is "x"; flag 262144 is control, 393216 is control and shift).
\<close>

definition talk_config :: hotkey_config where
  "talk_config = \<lparr>hk_keys = [''ctrl'', ''shift'', ''x''], hk_mode = ''hold'', hk_enabled = True\<rparr>"

definition dictate_config :: hotkey_config where
  "dictate_config = \<lparr>hk_keys = [''alt'', ''d''], hk_mode = ''toggle'', hk_enabled = True\<rparr>"

definition sig_config :: snippet_config where
  "sig_config = \<lparr>snip_keys = [''a'', ''b''], snip_text = ''Best regards'', snip_enabled = True\<rparr>"

definition example_settings :: global_hotkey_settings where
  "example_settings =
     \<lparr>keyboard_hotkeys = [(''talk'', talk_config), (''dictate'', dictate_config)],
      mouse_hotkeys = [],
      text_snippets = [(''sig'', sig_config)]\<rparr>"

definition press_talk_events :: "pynput_event list" where
  "press_talk_events =
     [Key_press (Inr ''ctrl''), Key_press (Inr ''a''), Key_press (Inr ''shift''),
      Key_press (Inr ''x''), Key_press (Inr ''x'')]"

definition press_talk_events_macos :: "cg_event list" where
  "press_talk_events_macos =
     [Flags_changed (Inr 262144), Key_down (Inr 0) (Inr 262144), Flags_changed (Inr 393216),
      Key_down (Inr 7) (Inr 393216), Key_down (Inr 7) (Inr 393216)]"



text \<open>
  Key-down sequences that press the toggle-mode combination of the example configuration
  (macOS flag 524288 is option, keycode 2 is "d").
\<close>

definition press_dictate_events :: "pynput_event list" where
  "press_dictate_events = [Key_press (Inr ''alt''), Key_press (Inr ''d'')]"

definition press_dictate_events_macos :: "cg_event list" where
  "press_dictate_events_macos = [Flags_changed (Inr 524288), Key_down (Inr 2) (Inr 524288)]"


text \<open>
  Configurations in which the id of a keyboard entry is the key that the snippet "sig"
  occupies in the active map, "snippet:sig": the entry holds "a", "b", "c" in hold mode, or
  in toggle mode, or holds the chord "a", "b" of the snippet itself. The event sequences
  press "a", "b", "c" and then release "c" (macOS keycodes 0, 11 and 8, no modifier flag).
\<close>

definition clash_hold_config :: hotkey_config where
  "clash_hold_config = \<lparr>hk_keys = [''a'', ''b'', ''c''], hk_mode = ''hold'', hk_enabled = True\<rparr>"

definition clash_hold_settings :: global_hotkey_settings where
  "clash_hold_settings =
     \<lparr>keyboard_hotkeys = [(''snippet:sig'', clash_hold_config)],
      mouse_hotkeys = [],
      text_snippets = [(''sig'', sig_config)]\<rparr>"

definition clash_toggle_config :: hotkey_config where
  "clash_toggle_config = \<lparr>hk_keys = [''a'', ''b'', ''c''], hk_mode = ''toggle'', hk_enabled = True\<rparr>"

definition clash_toggle_settings :: global_hotkey_settings where
  "clash_toggle_settings =
     \<lparr>keyboard_hotkeys = [(''snippet:sig'', clash_toggle_config)],
      mouse_hotkeys = [],
      text_snippets = [(''sig'', sig_config)]\<rparr>"



definition press_abc_events :: "pynput_event list" where
  "press_abc_events = [Key_press (Inr ''a''), Key_press (Inr ''b''), Key_press (Inr ''c'')]"

definition press_abc_events_macos :: "cg_event list" where
  "press_abc_events_macos =
     [Key_down (Inr 0) (Inr 0), Key_down (Inr 11) (Inr 0), Key_down (Inr 8) (Inr 0)]"

text \<open>
  The key events of claim C1 for the hold-mode combination "ctrl", "shift", "x" of the example
  configuration: the three key-downs, for both listeners. On macOS the modifiers arrive as
  changes of the flags (262144 is control, 393216 is control and shift), and the release of
  shift as the change back to 262144.
\<close>

definition hold_talk_events :: "pynput_event list" where
  "hold_talk_events = [Key_press (Inr ''ctrl''), Key_press (Inr ''shift''), Key_press (Inr ''x'')]"

definition hold_talk_events_macos :: "cg_event list" where
  "hold_talk_events_macos =
     [Flags_changed (Inr 262144), Flags_changed (Inr 393216), Key_down (Inr 7) (Inr 393216)]"

section \<open>Dicts and loops\<close>

lemma keys_dict_set: "fst ` set (dict_set d k v) = insert k (fst ` set d)"
proof (induction d)
  case Nil
  then show ?case by simp
next
  case (Cons a d)
  show ?case
  proof (cases "fst a = k")
    case True
    then show ?thesis by auto
  next
    case False
    then show ?thesis using Cons.IH by (simp add: insert_commute)
  qed
qed

lemma has_key_dict_set: "has_key (dict_set d k v) k' \<longleftrightarrow> k' = k \<or> has_key d k'"
  by (auto simp: has_key_def keys_dict_set)

lemma has_key_dict_del: "has_key (dict_del d k) k' \<longleftrightarrow> k' \<noteq> k \<and> has_key d k'"
  by (auto simp: has_key_def dict_del_def)

lemma for_each_append:
  "for_each body (xs @ ys) s =
     (case for_each body xs s of (s1, out1) \<Rightarrow>
        (case for_each body ys s1 of (s2, out2) \<Rightarrow> (s2, out1 @ out2)))"
  by (induction xs arbitrary: s) (auto split: prod.splits)

lemma for_each_frame:
  assumes "\<And>x s s' out. x \<in> set xs \<Longrightarrow> body x s = (s', out) \<Longrightarrow> f s' = f s \<and> filter p out = []"
  shows "for_each body xs s = (s', out) \<Longrightarrow> f s' = f s \<and> filter p out = []"
  using assms
proof (induction xs arbitrary: s s' out)
  case Nil
  then show ?case by simp
next
  case (Cons x xs)
  obtain s1 out1 where b: "body x s = (s1, out1)" by (cases "body x s")
  obtain s2 out2 where r: "for_each body xs s1 = (s2, out2)" by (cases "for_each body xs s1")
  from Cons.prems(1) b r have eq: "s' = s2" "out = out1 @ out2" by auto
  have 1: "f s1 = f s \<and> filter p out1 = []" using Cons.prems(2)[of x s s1 out1] b by simp
  have 2: "f s2 = f s1 \<and> filter p out2 = []"
  proof (rule Cons.IH[OF r])
    fix y t t' o'
    assume "y \<in> set xs" "body y t = (t', o')"
    then show "f t' = f t \<and> filter p o' = []" using Cons.prems(2)[of y t t' o'] by simp
  qed
  show ?case using 1 2 eq by simp
qed

lemma for_each_focus:
  assumes others: "\<And>y s s' out. y \<in> set xs \<Longrightarrow> y \<noteq> x \<Longrightarrow> body y s = (s', out)
                     \<Longrightarrow> f s' = f s \<and> filter p out = []"
    and mem: "x \<in> set xs" and dist: "distinct xs"
    and run: "for_each body xs s = (s', out)"
  shows "\<exists>s1 s2 out1. f s1 = f s \<and> body x s1 = (s2, out1) \<and> f s' = f s2 \<and> filter p out = filter p out1"
proof -
  from mem obtain ys zs where split: "xs = ys @ x # zs" by (auto dest: split_list)
  with dist have nin: "x \<notin> set ys" "x \<notin> set zs" by auto
  obtain s1 o1 where r1: "for_each body ys s = (s1, o1)" by (cases "for_each body ys s")
  obtain s2 o2 where r2: "body x s1 = (s2, o2)" by (cases "body x s1")
  obtain s3 o3 where r3: "for_each body zs s2 = (s3, o3)" by (cases "for_each body zs s2")
  from run split r1 r2 r3 have eq: "s' = s3" "out = o1 @ o2 @ o3"
    by (auto simp: for_each_append)
  have f1: "f s1 = f s \<and> filter p o1 = []"
    by (rule for_each_frame[OF _ r1]) (use others split nin in auto)
  have f3: "f s3 = f s2 \<and> filter p o3 = []"
    by (rule for_each_frame[OF _ r3]) (use others split nin in auto)
  show ?thesis using f1 f3 r2 eq by auto
qed

section \<open>Mouse events\<close>

lemma for_each_state_unchanged:
  assumes "\<And>x s s' out. x \<in> set xs \<Longrightarrow> body x s = (s', out) \<Longrightarrow> s' = s"
  shows "fst (for_each body xs s) = s"
proof -
  obtain s' out where r: "for_each body xs s = (s', out)" by (cases "for_each body xs s")
  have "id s' = id s \<and> filter (\<lambda>_. False) out = []"
    by (rule for_each_frame[OF _ r]) (use assms in auto)
  with r show ?thesis by simp
qed

lemma on_mouse_click_state: "fst (on_mouse_click cfg s button pressed) = s"
  unfolding on_mouse_click_def
  by (auto intro!: for_each_state_unchanged simp: click_mouse_hotkey_def split: if_splits)

lemma mouse_callback_state:
  "fst (event_callback cfg s (Other_mouse_down b)) = s"
  "fst (event_callback cfg s (Other_mouse_up b)) = s"
  by (auto intro!: for_each_state_unchanged simp: mouse_down_hotkey_def mouse_up_hotkey_def
      split: if_splits sum.splits)

lemma for_each_stateless:
  assumes "\<And>x s. x \<in> set xs \<Longrightarrow> body x s = (s, g x)"
  shows "for_each body xs s = (s, concat (map g xs))"
  using assms by (induction xs) auto

lemma on_mouse_click_down:
  "on_mouse_click cfg s Button_middle True = (s, concat (map mouse_down_signals (mouse_hotkeys cfg)))"
  unfolding on_mouse_click_def
  by (auto intro!: for_each_stateless simp: click_mouse_hotkey_def mouse_down_signals_def)

lemma on_mouse_click_up:
  "on_mouse_click cfg s Button_middle False = (s, concat (map mouse_up_signals (mouse_hotkeys cfg)))"
  unfolding on_mouse_click_def
  by (auto intro!: for_each_stateless simp: click_mouse_hotkey_def mouse_up_signals_def)

lemma callback_mouse_down:
  "event_callback cfg s (Other_mouse_down (Inr 2)) = (s, concat (map mouse_down_signals (mouse_hotkeys cfg)))"
  by (auto intro!: for_each_stateless simp: mouse_down_hotkey_def mouse_down_signals_def)

lemma callback_mouse_up:
  "event_callback cfg s (Other_mouse_up (Inr 2)) = (s, concat (map mouse_up_signals (mouse_hotkeys cfg)))"
  by (auto intro!: for_each_stateless simp: mouse_up_hotkey_def mouse_up_signals_def)

lemma filter_concat_single:
  assumes "distinct (map fst xs)" "(k, c) \<in> set xs"
    and "\<And>y. y \<in> set xs \<Longrightarrow> fst y \<noteq> k \<Longrightarrow> filter p (g y) = []"
  shows "filter p (concat (map g xs)) = filter p (g (k, c))"
  using assms
proof (induction xs)
  case Nil
  then show ?case by simp
next
  case (Cons a xs)
  show ?case
  proof (cases "a = (k, c)")
    case True
    have "filter p (concat (map g xs)) = []"
      using Cons.prems True by (auto simp: filter_empty_conv image_iff) 
    then show ?thesis using True by simp
  next
    case False
    with Cons.prems have "(k, c) \<in> set xs" "fst a \<noteq> k" by (auto simp: image_iff)
    then show ?thesis using Cons by auto
  qed
qed

lemma mouse_down_signals_other:
  "fst y \<noteq> k \<Longrightarrow> filter (is_mouse_signal k) (mouse_down_signals y) = []"
  by (cases y) (simp add: mouse_down_signals_def is_mouse_signal_def)

lemma mouse_up_signals_other:
  "fst y \<noteq> k \<Longrightarrow> filter (is_mouse_signal k) (mouse_up_signals y) = []"
  by (cases y) (simp add: mouse_up_signals_def is_mouse_signal_def)

lemma mouse_down_signals_own:
  assumes "distinct (map fst xs)" "(k, c) \<in> set xs" "mb_enabled c" "mb_button c = ''middle''"
  shows "filter (is_mouse_signal k) (concat (map mouse_down_signals xs)) =
           [mouse_button_event k (if mb_mode c = ''hold'' then ''press'' else ''toggle'')]"
proof -
  have "filter (is_mouse_signal k) (concat (map mouse_down_signals xs)) =
          filter (is_mouse_signal k) (mouse_down_signals (k, c))"
    by (rule filter_concat_single[OF assms(1,2)]) (rule mouse_down_signals_other)
  then show ?thesis using assms(3,4) by (simp add: mouse_down_signals_def is_mouse_signal_def)
qed

lemma mouse_up_signals_own:
  assumes "distinct (map fst xs)" "(k, c) \<in> set xs" "mb_enabled c" "mb_button c = ''middle''"
  shows "filter (is_mouse_signal k) (concat (map mouse_up_signals xs)) =
           (if mb_mode c = ''hold'' then [mouse_button_event k ''release''] else [])"
proof -
  have "filter (is_mouse_signal k) (concat (map mouse_up_signals xs)) =
          filter (is_mouse_signal k) (mouse_up_signals (k, c))"
    by (rule filter_concat_single[OF assms(1,2)]) (rule mouse_up_signals_other)
  then show ?thesis using assms(3,4) by (simp add: mouse_up_signals_def is_mouse_signal_def)
qed

text \<open>
  Claim C8. For every enabled mouse definition bound to the middle button, whatever the
  engine state: a press of the middle button emits for it exactly one signal, "press" in hold
  mode and "toggle" otherwise; a release of the middle button emits exactly one "release" for
  it in hold mode and nothing otherwise; an event of any other button emits no signal at all.
  This holds for \<open>_on_mouse_click\<close> of the pynput listener and for the two mouse branches
  of \<open>event_callback\<close> of the macOS listener (button number 2 is the middle button).
\<close>

theorem mouse_middle_signals:
  assumes "distinct (map fst (mouse_hotkeys cfg))"
    and "(mb_id, c) \<in> set (mouse_hotkeys cfg)"
    and "mb_enabled c" and "mb_button c = ''middle''"
  shows "filter (is_mouse_signal mb_id) (snd (on_mouse_click cfg s Button_middle True)) =
           [mouse_button_event mb_id (if mb_mode c = ''hold'' then ''press'' else ''toggle'')]
       \<and> filter (is_mouse_signal mb_id) (snd (on_mouse_click cfg s Button_middle False)) =
           (if mb_mode c = ''hold'' then [mouse_button_event mb_id ''release''] else [])
       \<and> (button \<noteq> Button_middle \<longrightarrow> snd (on_mouse_click cfg s button pressed) = [])
       \<and> filter (is_mouse_signal mb_id) (snd (event_callback cfg m (Other_mouse_down (Inr 2)))) =
           [mouse_button_event mb_id (if mb_mode c = ''hold'' then ''press'' else ''toggle'')]
       \<and> filter (is_mouse_signal mb_id) (snd (event_callback cfg m (Other_mouse_up (Inr 2)))) =
           (if mb_mode c = ''hold'' then [mouse_button_event mb_id ''release''] else [])
       \<and> (n \<noteq> 2 \<longrightarrow> snd (event_callback cfg m (Other_mouse_down (Inr n))) = []
                    \<and> snd (event_callback cfg m (Other_mouse_up (Inr n))) = [])"
proof -
  note down = mouse_down_signals_own[OF assms]
  note up = mouse_up_signals_own[OF assms]
  have 1: "filter (is_mouse_signal mb_id) (snd (on_mouse_click cfg s Button_middle True)) =
           [mouse_button_event mb_id (if mb_mode c = ''hold'' then ''press'' else ''toggle'')]"
    using down by (simp add: on_mouse_click_down)
  have 2: "filter (is_mouse_signal mb_id) (snd (on_mouse_click cfg s Button_middle False)) =
           (if mb_mode c = ''hold'' then [mouse_button_event mb_id ''release''] else [])"
    using up by (simp add: on_mouse_click_up)
  have 3: "button \<noteq> Button_middle \<longrightarrow> snd (on_mouse_click cfg s button pressed) = []"
    by (simp add: on_mouse_click_def)
  have 4: "filter (is_mouse_signal mb_id) (snd (event_callback cfg m (Other_mouse_down (Inr 2)))) =
           [mouse_button_event mb_id (if mb_mode c = ''hold'' then ''press'' else ''toggle'')]"
    using down by (simp only: callback_mouse_down snd_conv)
  have 5: "filter (is_mouse_signal mb_id) (snd (event_callback cfg m (Other_mouse_up (Inr 2)))) =
           (if mb_mode c = ''hold'' then [mouse_button_event mb_id ''release''] else [])"
    using up by (simp only: callback_mouse_up snd_conv)
  have 6: "n \<noteq> 2 \<longrightarrow> snd (event_callback cfg m (Other_mouse_down (Inr n))) = []
                    \<and> snd (event_callback cfg m (Other_mouse_up (Inr n))) = []"
    by simp
  show ?thesis using 1 2 3 4 5 6 by blast
qed

theorem mouse_middle_signals_witness:
  "filter (is_mouse_signal ''talk'')
      (snd (on_mouse_click example_mouse_settings initial_state Button_middle True)) =
      [mouse_button_event ''talk'' ''press'']
   \<and> filter (is_mouse_signal ''talk'')
      (snd (on_mouse_click example_mouse_settings initial_state Button_middle False)) =
      [mouse_button_event ''talk'' ''release'']
   \<and> snd (on_mouse_click example_mouse_settings initial_state Button_left True) = []
   \<and> filter (is_mouse_signal ''talk'')
      (snd (event_callback example_mouse_settings initial_macos_state (Other_mouse_down (Inr 2)))) =
      [mouse_button_event ''talk'' ''press'']
   \<and> filter (is_mouse_signal ''talk'')
      (snd (event_callback example_mouse_settings initial_macos_state (Other_mouse_up (Inr 2)))) =
      [mouse_button_event ''talk'' ''release'']
   \<and> snd (event_callback example_mouse_settings initial_macos_state (Other_mouse_down (Inr 3))) = []
   \<and> snd (event_callback example_mouse_settings initial_macos_state (Other_mouse_up (Inr 3))) = []"
proof -
  have d: "distinct (map fst (mouse_hotkeys example_mouse_settings))"
    by (simp add: example_mouse_settings_def)
  have m: "(''talk'', \<lparr>mb_button = ''middle'', mb_mode = ''hold'', mb_enabled = True\<rparr>)
             \<in> set (mouse_hotkeys example_mouse_settings)"
    by (simp add: example_mouse_settings_def)
  show ?thesis
    using mouse_middle_signals[OF d m, of initial_state Button_left True initial_macos_state 3]
    by simp
qed

text \<open>
  Claim C9. A mouse event, press or release and whatever its button, leaves the pressed set
  and the active map as they were, in both listeners (in the macOS listener also when reading
  the button number raises).
\<close>

theorem mouse_event_keeps_key_state:
  "pressed_keys (fst (on_mouse_click cfg s button pressed)) = pressed_keys s
   \<and> active_combos (fst (on_mouse_click cfg s button pressed)) = active_combos s
   \<and> pressed_keys (fst (event_callback cfg m (Other_mouse_down b))) = pressed_keys m
   \<and> active_combos (fst (event_callback cfg m (Other_mouse_down b))) = active_combos m
   \<and> pressed_keys (fst (event_callback cfg m (Other_mouse_up b))) = pressed_keys m
   \<and> active_combos (fst (event_callback cfg m (Other_mouse_up b))) = active_combos m"
  by (simp only: on_mouse_click_state mouse_callback_state)

text \<open>
  Claim C10. In the macOS listener a key-down or key-up event whose keycode the table
  \<open>keycode_map\<close> does not hold is ignored: no signal, and the state (pressed set, active
  map and last modifiers) is the one before the event.
\<close>

theorem unknown_keycode_ignored:
  assumes "keycode_to_name keycode = None"
  shows "event_callback cfg m (Key_down (Inr keycode) fl) = (m, [])
       \<and> event_callback cfg m (Key_up (Inr keycode) fl) = (m, [])"
  using assms by simp

theorem unknown_keycode_ignored_witness:
  "keycode_to_name 10 = None
   \<and> event_callback example_mouse_settings initial_macos_state (Key_down (Inr 10) (Inr 0))
       = (initial_macos_state, [])
   \<and> event_callback example_mouse_settings initial_macos_state (Key_up (Inr 10) (Inr 0))
       = (initial_macos_state, [])"
proof -
  have h: "keycode_to_name 10 = None"
    by (simp add: keycode_to_name_def keycode_map_def)
  show ?thesis
    using h unknown_keycode_ignored[OF h, of example_mouse_settings initial_macos_state "Inr 0"]
    by simp
qed

section \<open>Keyboard hotkeys: loop lemmas\<close>

lemma for_each_focus_key:
  assumes dist: "distinct (map fst xs)" and mem: "(k, c) \<in> set xs"
    and others: "\<And>y s s' out. y \<in> set xs \<Longrightarrow> fst y \<noteq> k \<Longrightarrow> body y s = (s', out)
                     \<Longrightarrow> f s' = f s \<and> filter p out = []"
    and run: "for_each body xs s = (s', out)"
  shows "\<exists>s1 s2 out1. f s1 = f s \<and> body (k, c) s1 = (s2, out1) \<and> f s' = f s2
           \<and> filter p out = filter p out1"
proof (rule for_each_focus[OF _ mem _ run])
  show "distinct xs" using dist by (simp add: distinct_map)
next
  fix y t t' o'
  assume y: "y \<in> set xs" "y \<noteq> (k, c)" and b: "body y t = (t', o')"
  have "fst y \<noteq> k"
  proof
    assume "fst y = k"
    then have "(k, snd y) \<in> set xs" using y(1) by (metis prod.collapse)
    with mem dist have "snd y = c" by (meson eq_key_imp_eq_value)
    with \<open>fst y = k\<close> y(2) show False by (metis prod.collapse)
  qed
  then show "f t' = f t \<and> filter p o' = []" using others[OF y(1) _ b] by simp
qed

lemma for_each_absent_key:
  assumes "k \<notin> fst ` set xs"
    and others: "\<And>y s s' out. y \<in> set xs \<Longrightarrow> fst y \<noteq> k \<Longrightarrow> body y s = (s', out)
                     \<Longrightarrow> f s' = f s \<and> filter p out = []"
    and run: "for_each body xs s = (s', out)"
  shows "f s' = f s \<and> filter p out = []"
proof (rule for_each_frame[OF _ run])
  fix y t t' o'
  assume y: "y \<in> set xs" and b: "body y t = (t', o')"
  from y assms(1) have "fst y \<noteq> k" by auto
  then show "f t' = f t \<and> filter p o' = []" using others[OF y _ b] by simp
qed

subsection \<open>pynput: the loops of the key-press handler\<close>

lemma press_hotkey_other:
  assumes "fst y \<noteq> hid" "press_hotkey y s = (s', out)"
  shows "(pressed_keys s', has_key (active_combos s') hid) = (pressed_keys s, has_key (active_combos s) hid)
         \<and> filter (is_hotkey_signal hid) out = []"
  using assms
  by (cases y) (auto simp: press_hotkey_def has_key_dict_set is_hotkey_signal_def split: if_splits)

lemma press_hotkey_own:
  assumes "press_hotkey (hid, d) s = (s', out)"
  shows "pressed_keys s' = pressed_keys s"
    and "has_key (active_combos s') hid \<longleftrightarrow>
           has_key (active_combos s) hid \<or> (hk_enabled d \<and> set (hk_keys d) \<subseteq> pressed_keys s)"
    and "filter (is_hotkey_signal hid) out =
           (if hk_enabled d \<and> set (hk_keys d) \<subseteq> pressed_keys s \<and> \<not> has_key (active_combos s) hid
            then [hotkey_pressed hid (if hk_mode d = ''hold'' then ''press'' else ''toggle'')]
            else [])"
  using assms
  by (auto simp: press_hotkey_def has_key_dict_set is_hotkey_signal_def split: if_splits)

lemma press_hotkeys_own:
  assumes dist: "distinct (map fst hks)" and mem: "(hid, d) \<in> set hks"
    and run: "for_each press_hotkey hks s = (s', out)"
  shows "pressed_keys s' = pressed_keys s"
    and "has_key (active_combos s') hid \<longleftrightarrow>
           has_key (active_combos s) hid \<or> (hk_enabled d \<and> set (hk_keys d) \<subseteq> pressed_keys s)"
    and "filter (is_hotkey_signal hid) out =
           (if hk_enabled d \<and> set (hk_keys d) \<subseteq> pressed_keys s \<and> \<not> has_key (active_combos s) hid
            then [hotkey_pressed hid (if hk_mode d = ''hold'' then ''press'' else ''toggle'')]
            else [])"
proof -
  let ?f = "\<lambda>s. (pressed_keys s, has_key (active_combos s) hid)"
  obtain s1 s2 out1 where f1: "?f s1 = ?f s" and b: "press_hotkey (hid, d) s1 = (s2, out1)"
    and f2: "?f s' = ?f s2"
    and o: "filter (is_hotkey_signal hid) out = filter (is_hotkey_signal hid) out1"
    using for_each_focus_key[OF dist mem _ run, of ?f "is_hotkey_signal hid"] press_hotkey_other
    by blast
  note own = press_hotkey_own[OF b]
  show "pressed_keys s' = pressed_keys s" using f1 f2 own(1) by simp
  show "has_key (active_combos s') hid \<longleftrightarrow>
           has_key (active_combos s) hid \<or> (hk_enabled d \<and> set (hk_keys d) \<subseteq> pressed_keys s)"
    using f1 f2 own(2) by simp
  show "filter (is_hotkey_signal hid) out =
           (if hk_enabled d \<and> set (hk_keys d) \<subseteq> pressed_keys s \<and> \<not> has_key (active_combos s) hid
            then [hotkey_pressed hid (if hk_mode d = ''hold'' then ''press'' else ''toggle'')]
            else [])"
    using f1 o own(3) by simp
qed

lemma press_hotkeys_pressed:
  assumes "for_each press_hotkey hks s = (s', out)"
  shows "pressed_keys s' = pressed_keys s" and "has_key (active_combos s) k \<Longrightarrow> has_key (active_combos s') k"
proof -
  have "pressed_keys s' = pressed_keys s \<and> filter (\<lambda>_. False) out = []"
    by (rule for_each_frame[OF _ assms])
       (auto simp: press_hotkey_def split: if_splits)
  then show "pressed_keys s' = pressed_keys s" by simp
  have "(has_key (active_combos s) k \<longrightarrow> has_key (active_combos s') k)"
    using assms
  proof (induction hks arbitrary: s s' out)
    case Nil
    then show ?case by simp
  next
    case (Cons a hks)
    then show ?case
      by (cases a) (auto simp: press_hotkey_def has_key_dict_set split: if_splits prod.splits)
  qed
  then show "has_key (active_combos s) k \<Longrightarrow> has_key (active_combos s') k" by simp
qed

lemma for_each_invariant:
  assumes step: "\<And>x s s' out. x \<in> set xs \<Longrightarrow> I s \<Longrightarrow> body x s = (s', out)
                     \<Longrightarrow> I s' \<and> (\<forall>sg \<in> set out. Q sg)"
    and init: "I s" and run: "for_each body xs s = (s', out)"
  shows "I s' \<and> (\<forall>sg \<in> set out. Q sg)"
  using assms
proof (induction xs arbitrary: s s' out)
  case Nil
  then show ?case by simp
next
  case (Cons x xs)
  obtain s1 out1 where b: "body x s = (s1, out1)" by (cases "body x s")
  obtain s2 out2 where r: "for_each body xs s1 = (s2, out2)" by (cases "for_each body xs s1")
  from Cons.prems(3) b r have eq: "s' = s2" "out = out1 @ out2" by auto
  have 1: "I s1 \<and> (\<forall>sg \<in> set out1. Q sg)"
    using Cons.prems(1)[of x s s1 out1] Cons.prems(2) b by simp
  have 2: "I s2 \<and> (\<forall>sg \<in> set out2. Q sg)"
  proof (rule Cons.IH[OF _ _ r])
    show "I s1" using 1 by simp
  next
    fix y t t' o'
    assume "y \<in> set xs" "I t" "body y t = (t', o')"
    then show "I t' \<and> (\<forall>sg \<in> set o'. Q sg)" using Cons.prems(1)[of y t t' o'] by simp
  qed
  show ?case using 1 2 eq by auto
qed

subsection \<open>pynput: the snippet loop of the key-press handler\<close>

lemma snippet_key_eq [simp]: "snippet_key a = snippet_key b \<longleftrightarrow> a = b"
  by (simp add: snippet_key_def)

lemma press_snippets_frame:
  assumes "for_each press_snippet sns s = (s', out)"
  shows "pressed_keys s' = pressed_keys s"
    and "has_key (active_combos s) k \<Longrightarrow> has_key (active_combos s') k"
    and "k \<notin> (\<lambda>y. snippet_key (fst y)) ` set sns \<Longrightarrow>
           has_key (active_combos s') k = has_key (active_combos s) k"
    and "filter (is_hotkey_signal hid) out = []"
proof -
  have a: "(pressed_keys s' = pressed_keys s \<and> (has_key (active_combos s) k \<longrightarrow> has_key (active_combos s') k))
           \<and> (\<forall>sg \<in> set out. \<not> is_hotkey_signal hid sg)"
    by (rule for_each_invariant[OF _ _ assms,
          where I = "\<lambda>t. pressed_keys t = pressed_keys s \<and> (has_key (active_combos s) k \<longrightarrow> has_key (active_combos t) k)"])
       (clarsimp simp: press_snippet_def Let_def has_key_dict_set is_hotkey_signal_def split: if_splits)+
  show "pressed_keys s' = pressed_keys s" using a by simp
  show "has_key (active_combos s) k \<Longrightarrow> has_key (active_combos s') k" using a by simp
  show "filter (is_hotkey_signal hid) out = []" using a by (simp add: filter_empty_conv)
  show "has_key (active_combos s') k = has_key (active_combos s) k"
    if "k \<notin> (\<lambda>y. snippet_key (fst y)) ` set sns"
  proof -
    have "has_key (active_combos s') k = has_key (active_combos s) k \<and> filter (\<lambda>_. False) out = []"
    proof (rule for_each_frame[OF _ assms])
      fix x t t' o'
      assume x: "x \<in> set sns" and b: "press_snippet x t = (t', o')"
      from x that have "k \<noteq> snippet_key (fst x)" by auto
      with b show "has_key (active_combos t') k = has_key (active_combos t) k \<and> filter (\<lambda>_. False) o' = []"
        by (cases x) (clarsimp simp: press_snippet_def Let_def has_key_dict_set split: if_splits)
    qed
    then show ?thesis by simp
  qed
qed


lemma press_snippet_own:
  assumes "press_snippet (sid, sc) s = (s', out)"
  shows "pressed_keys s' = pressed_keys s"
    and "filter (is_snippet_signal sid) out =
           (if snip_enabled sc \<and> set (snip_keys sc) = pressed_keys s
               \<and> \<not> has_key (active_combos s) (snippet_key sid)
            then [snippet_triggered sid (snip_text sc)] else [])"
  using assms
  by (clarsimp simp: press_snippet_def Let_def is_snippet_signal_def split: if_splits)+


lemma press_snippet_out:
  assumes "press_snippet (a, b) t = (t', out)" "sg \<in> set out"
  shows "sg = snippet_triggered a (snip_text b) \<and> snip_enabled b
         \<and> set (snip_keys b) = pressed_keys t"
  using assms by (clarsimp simp: press_snippet_def Let_def split: if_splits)

lemma press_snippets_only_exact:
  assumes run: "for_each press_snippet sns s = (s', out)"
    and sg: "snippet_triggered sid t \<in> set out"
  shows "\<exists>sc. (sid, sc) \<in> set sns \<and> snip_enabled sc \<and> t = snip_text sc
               \<and> set (snip_keys sc) = pressed_keys s"
proof -
  let ?Q = "\<lambda>sg. \<forall>i t. sg = snippet_triggered i t \<longrightarrow>
              (\<exists>sc. (i, sc) \<in> set sns \<and> snip_enabled sc \<and> t = snip_text sc
                    \<and> set (snip_keys sc) = pressed_keys s)"
  have "pressed_keys s' = pressed_keys s \<and> (\<forall>sg \<in> set out. ?Q sg)"
  proof (rule for_each_invariant[OF _ _ run, where I = "\<lambda>t. pressed_keys t = pressed_keys s"])
    show "pressed_keys s = pressed_keys s" by simp
  next
    fix x u u' o'
    assume x: "x \<in> set sns" and inv: "pressed_keys u = pressed_keys s"
      and b: "press_snippet x u = (u', o')"
    obtain a c where xa: "x = (a, c)" by (cases x)
    have p: "pressed_keys u' = pressed_keys s"
      using press_snippet_own(1)[OF b[unfolded xa]] inv by simp
    have "?Q sg" if "sg \<in> set o'" for sg
    proof (intro allI impI)
      fix i t assume e: "sg = snippet_triggered i t"
      from press_snippet_out[OF b[unfolded xa] that] e inv
      have "i = a" "t = snip_text c" "snip_enabled c" "set (snip_keys c) = pressed_keys s"
        by simp_all
      with x xa show "\<exists>sc. (i, sc) \<in> set sns \<and> snip_enabled sc \<and> t = snip_text sc
                    \<and> set (snip_keys sc) = pressed_keys s"
        by (intro exI[of _ c]) simp
    qed
    with p show "pressed_keys u' = pressed_keys s \<and> (\<forall>sg \<in> set o'. ?Q sg)" by simp
  qed
  with sg show ?thesis by blast
qed

subsection \<open>pynput: the loops of the key-release handler\<close>

lemma release_hotkey_other:
  assumes "fst y \<noteq> hid" "release_hotkey k y s = (s', out)"
  shows "(pressed_keys s', has_key (active_combos s') hid) = (pressed_keys s, has_key (active_combos s) hid)
         \<and> filter (is_hotkey_signal hid) out = []"
  using assms
  by (cases y) (clarsimp simp: release_hotkey_def has_key_dict_del is_hotkey_signal_def split: if_splits)

lemma release_hotkey_own:
  assumes "release_hotkey k (hid, d) s = (s', out)"
  shows "pressed_keys s' = pressed_keys s"
    and "has_key (active_combos s') hid \<longleftrightarrow>
           has_key (active_combos s) hid
           \<and> \<not> (k \<in> set (hk_keys d) \<and> \<not> release_skipped d (pressed_keys s) k)"
    and "filter (is_hotkey_signal hid) out =
           (if has_key (active_combos s) hid \<and> k \<in> set (hk_keys d)
               \<and> \<not> release_skipped d (pressed_keys s) k \<and> hk_mode d = ''hold''
            then [hotkey_pressed hid ''release''] else [])"
proof -
  let ?ends = "has_key (active_combos s) hid \<and> k \<in> set (hk_keys d)
               \<and> \<not> release_skipped d (pressed_keys s) k"
  have r: "(s', out) =
      (if ?ends then (s\<lparr>active_combos := dict_del (active_combos s) hid\<rparr>,
                      if hk_mode d = ''hold'' then [hotkey_pressed hid ''release''] else [])
       else (s, []))"
    unfolding assms[symmetric] by (simp add: release_hotkey_def)
  show "pressed_keys s' = pressed_keys s"
    using r by (cases ?ends) simp_all
  show "has_key (active_combos s') hid \<longleftrightarrow>
           has_key (active_combos s) hid
           \<and> \<not> (k \<in> set (hk_keys d) \<and> \<not> release_skipped d (pressed_keys s) k)"
    using r by (cases ?ends) (auto simp: has_key_dict_del)
  show "filter (is_hotkey_signal hid) out =
           (if has_key (active_combos s) hid \<and> k \<in> set (hk_keys d)
               \<and> \<not> release_skipped d (pressed_keys s) k \<and> hk_mode d = ''hold''
            then [hotkey_pressed hid ''release''] else [])"
    using r by (cases ?ends) (simp_all add: is_hotkey_signal_def)
qed

lemma release_hotkeys_own:
  assumes dist: "distinct (map fst hks)" and mem: "(hid, d) \<in> set hks"
    and run: "for_each (release_hotkey k) hks s = (s', out)"
  shows "has_key (active_combos s') hid \<longleftrightarrow>
           has_key (active_combos s) hid
           \<and> \<not> (k \<in> set (hk_keys d) \<and> \<not> release_skipped d (pressed_keys s) k)"
    and "filter (is_hotkey_signal hid) out =
           (if has_key (active_combos s) hid \<and> k \<in> set (hk_keys d)
               \<and> \<not> release_skipped d (pressed_keys s) k \<and> hk_mode d = ''hold''
            then [hotkey_pressed hid ''release''] else [])"
proof -
  let ?f = "\<lambda>s. (pressed_keys s, has_key (active_combos s) hid)"
  obtain s1 s2 out1 where f1: "?f s1 = ?f s" and b: "release_hotkey k (hid, d) s1 = (s2, out1)"
    and f2: "?f s' = ?f s2"
    and o: "filter (is_hotkey_signal hid) out = filter (is_hotkey_signal hid) out1"
    using for_each_focus_key[OF dist mem _ run, of ?f "is_hotkey_signal hid"] release_hotkey_other
    by blast
  note own = release_hotkey_own[OF b]
  show "has_key (active_combos s') hid \<longleftrightarrow>
           has_key (active_combos s) hid
           \<and> \<not> (k \<in> set (hk_keys d) \<and> \<not> release_skipped d (pressed_keys s) k)"
    using f1 f2 own(2) by simp
  show "filter (is_hotkey_signal hid) out =
           (if has_key (active_combos s) hid \<and> k \<in> set (hk_keys d)
               \<and> \<not> release_skipped d (pressed_keys s) k \<and> hk_mode d = ''hold''
            then [hotkey_pressed hid ''release''] else [])"
    using f1 o own(3) by simp
qed

lemma release_hotkeys_frame:
  assumes "for_each (release_hotkey k) hks s = (s', out)"
  shows "pressed_keys s' = pressed_keys s"
    and "has_key (active_combos s') x \<Longrightarrow> has_key (active_combos s) x"
    and "x \<notin> fst ` set hks \<Longrightarrow> has_key (active_combos s') x = has_key (active_combos s) x"
    and "sg \<in> set out \<Longrightarrow> \<exists>i. sg = hotkey_pressed i ''release''"
proof -
  have a: "(pressed_keys s' = pressed_keys s \<and> (has_key (active_combos s') x \<longrightarrow> has_key (active_combos s) x))
           \<and> (\<forall>sg \<in> set out. \<exists>i. sg = hotkey_pressed i ''release'')"
    by (rule for_each_invariant[OF _ _ assms,
          where I = "\<lambda>t. pressed_keys t = pressed_keys s \<and> (has_key (active_combos t) x \<longrightarrow> has_key (active_combos s) x)"])
       (clarsimp simp: release_hotkey_def has_key_dict_del split: if_splits)+
  show "pressed_keys s' = pressed_keys s" using a by simp
  show "has_key (active_combos s') x \<Longrightarrow> has_key (active_combos s) x" using a by simp
  show "sg \<in> set out \<Longrightarrow> \<exists>i. sg = hotkey_pressed i ''release''" using a by blast
  show "has_key (active_combos s') x = has_key (active_combos s) x" if "x \<notin> fst ` set hks"
  proof -
    have "has_key (active_combos s') x = has_key (active_combos s) x
          \<and> filter (is_hotkey_signal x) out = []"
      by (rule for_each_absent_key[OF that _ assms]) (use release_hotkey_other in blast)
    then show ?thesis by simp
  qed
qed

lemma release_snippets_frame:
  assumes "for_each (release_snippet k) sns s = (s', out)"
  shows "pressed_keys s' = pressed_keys s"
    and "has_key (active_combos s') x \<Longrightarrow> has_key (active_combos s) x"
    and "x \<notin> (\<lambda>y. snippet_key (fst y)) ` set sns \<Longrightarrow>
           has_key (active_combos s') x = has_key (active_combos s) x"
    and "out = []"
proof -
  have a: "(pressed_keys s' = pressed_keys s \<and> (has_key (active_combos s') x \<longrightarrow> has_key (active_combos s) x))
           \<and> (\<forall>sg \<in> set out. False)"
    by (rule for_each_invariant[OF _ _ assms,
          where I = "\<lambda>t. pressed_keys t = pressed_keys s \<and> (has_key (active_combos t) x \<longrightarrow> has_key (active_combos s) x)"])
       (clarsimp simp: release_snippet_def Let_def has_key_dict_del split: if_splits)+
  show "pressed_keys s' = pressed_keys s" using a by simp
  show "has_key (active_combos s') x \<Longrightarrow> has_key (active_combos s) x" using a by simp
  show "out = []" using a by (cases out) auto
  show "has_key (active_combos s') x = has_key (active_combos s) x"
    if "x \<notin> (\<lambda>y. snippet_key (fst y)) ` set sns"
  proof -
    have "has_key (active_combos s') x = has_key (active_combos s) x \<and> filter (\<lambda>_. False) out = []"
    proof (rule for_each_frame[OF _ assms])
      fix y t t' o'
      assume y: "y \<in> set sns" and b: "release_snippet k y t = (t', o')"
      from y that have "x \<noteq> snippet_key (fst y)" by auto
      with b show "has_key (active_combos t') x = has_key (active_combos t) x \<and> filter (\<lambda>_. False) o' = []"
        by (cases y) (clarsimp simp: release_snippet_def Let_def has_key_dict_del split: if_splits)
    qed
    then show ?thesis by simp
  qed
qed

subsection \<open>pynput: the handlers, seen from one keyboard entry\<close>

lemma on_key_press_hotkey:
  assumes dist: "distinct (map fst (keyboard_hotkeys cfg))"
    and mem: "(hid, d) \<in> set (keyboard_hotkeys cfg)"
    and run: "on_key_press cfg s (Inr k) = (s', out)"
  shows "pressed_keys s' = insert k (pressed_keys s)"
    and "filter (is_hotkey_signal hid) out =
           (if hk_enabled d \<and> set (hk_keys d) \<subseteq> insert k (pressed_keys s)
               \<and> \<not> has_key (active_combos s) hid
            then [activation_signal hid d] else [])"
    and "has_key (active_combos s) hid \<or> (hk_enabled d \<and> set (hk_keys d) \<subseteq> insert k (pressed_keys s))
           \<Longrightarrow> has_key (active_combos s') hid"
    and "hid \<notin> snippet_keys cfg \<Longrightarrow>
           has_key (active_combos s') hid \<longleftrightarrow>
             has_key (active_combos s) hid \<or> (hk_enabled d \<and> set (hk_keys d) \<subseteq> insert k (pressed_keys s))"
proof -
  let ?s0 = "s\<lparr>pressed_keys := insert k (pressed_keys s)\<rparr>"
  obtain s1 out1 where r1: "for_each press_hotkey (keyboard_hotkeys cfg) ?s0 = (s1, out1)"
    by (cases "for_each press_hotkey (keyboard_hotkeys cfg) ?s0")
  obtain s2 out2 where r2: "for_each press_snippet (text_snippets cfg) s1 = (s2, out2)"
    by (cases "for_each press_snippet (text_snippets cfg) s1")
  from run r1 r2 have eq: "s' = s2" "out = out1 @ out2"
    by (simp_all add: on_key_press_def Let_def)
  note h = press_hotkeys_own[OF dist mem r1]
  note sn = press_snippets_frame[OF r2]
  show "pressed_keys s' = insert k (pressed_keys s)"
    using eq h(1) sn(1) by simp
  show "filter (is_hotkey_signal hid) out =
           (if hk_enabled d \<and> set (hk_keys d) \<subseteq> insert k (pressed_keys s)
               \<and> \<not> has_key (active_combos s) hid
            then [activation_signal hid d] else [])"
    using eq h(3) sn(4)[of hid] by (simp add: activation_signal_def)
  show "has_key (active_combos s') hid"
    if "has_key (active_combos s) hid \<or> (hk_enabled d \<and> set (hk_keys d) \<subseteq> insert k (pressed_keys s))"
    using that eq h(2) sn(2)[of hid] by simp
  show "has_key (active_combos s') hid \<longleftrightarrow>
             has_key (active_combos s) hid \<or> (hk_enabled d \<and> set (hk_keys d) \<subseteq> insert k (pressed_keys s))"
    if "hid \<notin> snippet_keys cfg"
    using that eq h(2) sn(3)[of hid] by (simp add: snippet_keys_def)
qed

lemma on_key_release_hotkey:
  assumes dist: "distinct (map fst (keyboard_hotkeys cfg))"
    and mem: "(hid, d) \<in> set (keyboard_hotkeys cfg)"
    and run: "on_key_release cfg s (Inr k) = (s', out)"
  shows "pressed_keys s' = pressed_keys s - {k}"
    and "filter (is_hotkey_signal hid) out =
           (if has_key (active_combos s) hid \<and> k \<in> set (hk_keys d)
               \<and> \<not> release_skipped d (pressed_keys s) k \<and> hk_mode d = ''hold''
            then [hotkey_pressed hid ''release''] else [])"
    and "has_key (active_combos s') hid \<Longrightarrow>
           has_key (active_combos s) hid
           \<and> \<not> (k \<in> set (hk_keys d) \<and> \<not> release_skipped d (pressed_keys s) k)"
    and "hid \<notin> snippet_keys cfg \<Longrightarrow>
           has_key (active_combos s') hid \<longleftrightarrow>
             has_key (active_combos s) hid
             \<and> \<not> (k \<in> set (hk_keys d) \<and> \<not> release_skipped d (pressed_keys s) k)"
proof -
  obtain s1 out1 where r1: "for_each (release_hotkey k) (keyboard_hotkeys cfg) s = (s1, out1)"
    by (cases "for_each (release_hotkey k) (keyboard_hotkeys cfg) s")
  obtain s2 out2 where r2: "for_each (release_snippet k) (text_snippets cfg) s1 = (s2, out2)"
    by (cases "for_each (release_snippet k) (text_snippets cfg) s1")
  from run r1 r2 have eq: "s' = s2\<lparr>pressed_keys := pressed_keys s2 - {k}\<rparr>" "out = out1 @ out2"
    by (auto simp: on_key_release_def release_loops_def)
  note h = release_hotkeys_own[OF dist mem r1]
  note hf = release_hotkeys_frame[OF r1]
  note sn = release_snippets_frame[OF r2]
  show "pressed_keys s' = pressed_keys s - {k}"
    using eq hf(1) sn(1) by simp
  show "filter (is_hotkey_signal hid) out =
           (if has_key (active_combos s) hid \<and> k \<in> set (hk_keys d)
               \<and> \<not> release_skipped d (pressed_keys s) k \<and> hk_mode d = ''hold''
            then [hotkey_pressed hid ''release''] else [])"
    using eq h(2) sn(4) by simp
  show "has_key (active_combos s) hid
           \<and> \<not> (k \<in> set (hk_keys d) \<and> \<not> release_skipped d (pressed_keys s) k)"
    if "has_key (active_combos s') hid"
    using that eq h(1) sn(2)[of hid] by simp
  show "has_key (active_combos s') hid \<longleftrightarrow>
             has_key (active_combos s) hid
             \<and> \<not> (k \<in> set (hk_keys d) \<and> \<not> release_skipped d (pressed_keys s) k)"
    if "hid \<notin> snippet_keys cfg"
    using that eq h(1) sn(3)[of hid] by (simp add: snippet_keys_def)
qed

lemma on_key_error_state:
  "on_key_press cfg s (Inl e) = (s, [listener_error Key_press_error e])"
  "on_key_release cfg s (Inl e) = (s, [listener_error Key_release_error e])"
  by (simp_all add: on_key_press_def on_key_release_def)

lemma on_mouse_click_no_hotkey_signal:
  "filter (is_hotkey_signal hid) (snd (on_mouse_click cfg s b p)) = []"
proof -
  obtain s' out where r: "on_mouse_click cfg s b p = (s', out)" by (cases "on_mouse_click cfg s b p")
  have "id s' = id s \<and> filter (is_hotkey_signal hid) out = []"
  proof (cases "b = Button_middle")
    case True
    with r have fe: "for_each (click_mouse_hotkey p) (mouse_hotkeys cfg) s = (s', out)"
      by (simp add: on_mouse_click_def)
    show ?thesis
      by (rule for_each_frame[OF _ fe])
         (auto simp: click_mouse_hotkey_def is_hotkey_signal_def split: if_splits)
  next
    case False
    with r show ?thesis by (simp add: on_mouse_click_def)
  qed
  with r show ?thesis by simp
qed

subsection \<open>pynput: event sequences\<close>

lemma handle_event_hotkey:
  assumes dist: "distinct (map fst (keyboard_hotkeys cfg))"
    and mem: "(hid, d) \<in> set (keyboard_hotkeys cfg)"
    and free: "hid \<notin> snippet_keys cfg"
    and norel: "\<not> releases_combo_key d ev"
    and run: "handle_event cfg s ev = (s', out)"
  shows "filter (is_hotkey_signal hid) out =
           (if hk_enabled d \<and> completes_combo d s ev \<and> \<not> has_key (active_combos s) hid
            then [activation_signal hid d] else [])"
    and "has_key (active_combos s') hid \<longleftrightarrow>
           has_key (active_combos s) hid \<or> (hk_enabled d \<and> completes_combo d s ev)"
proof -
  have "filter (is_hotkey_signal hid) out =
           (if hk_enabled d \<and> completes_combo d s ev \<and> \<not> has_key (active_combos s) hid
            then [activation_signal hid d] else [])
        \<and> (has_key (active_combos s') hid \<longleftrightarrow>
           has_key (active_combos s) hid \<or> (hk_enabled d \<and> completes_combo d s ev))"
  proof (cases ev)
    case (Key_press nk)
    show ?thesis
    proof (cases nk)
      case (Inl e)
      with Key_press run show ?thesis
        by (auto simp: on_key_error_state is_hotkey_signal_def)
    next
      case (Inr k)
      with Key_press run have r: "on_key_press cfg s (Inr k) = (s', out)" by simp
      show ?thesis
        using on_key_press_hotkey(2)[OF dist mem r] on_key_press_hotkey(4)[OF dist mem r free]
          Key_press Inr by simp
    qed
  next
    case (Key_release nk)
    show ?thesis
    proof (cases nk)
      case (Inl e)
      with Key_release run show ?thesis
        by (auto simp: on_key_error_state is_hotkey_signal_def)
    next
      case (Inr k)
      with Key_release run have r: "on_key_release cfg s (Inr k) = (s', out)" by simp
      from Key_release Inr norel have nk: "k \<notin> set (hk_keys d)" by simp
      show ?thesis
        using on_key_release_hotkey(2)[OF dist mem r] on_key_release_hotkey(4)[OF dist mem r free]
          Key_release nk by simp
    qed
  next
    case (Mouse_click b p)
    with run have "s' = s" "filter (is_hotkey_signal hid) out = []"
      using on_mouse_click_state[of cfg s b p] on_mouse_click_no_hotkey_signal[of hid cfg s b p]
      by simp_all
    with Mouse_click show ?thesis by simp
  qed
  then show "filter (is_hotkey_signal hid) out =
           (if hk_enabled d \<and> completes_combo d s ev \<and> \<not> has_key (active_combos s) hid
            then [activation_signal hid d] else [])"
    and "has_key (active_combos s') hid \<longleftrightarrow>
           has_key (active_combos s) hid \<or> (hk_enabled d \<and> completes_combo d s ev)"
    by simp_all
qed

lemma run_events_hotkey:
  assumes dist: "distinct (map fst (keyboard_hotkeys cfg))"
    and mem: "(hid, d) \<in> set (keyboard_hotkeys cfg)"
    and en: "hk_enabled d"
    and free: "hid \<notin> snippet_keys cfg"
    and norel: "\<forall>ev \<in> set evs. \<not> releases_combo_key d ev"
    and run: "run_events cfg evs s = (s', out)"
  shows "filter (is_hotkey_signal hid) out =
           (if combo_completed_in cfg d evs s \<and> \<not> has_key (active_combos s) hid
            then [activation_signal hid d] else [])
         \<and> (has_key (active_combos s') hid \<longleftrightarrow>
              has_key (active_combos s) hid \<or> combo_completed_in cfg d evs s)"
  using norel run
proof (induction evs arbitrary: s s' out)
  case Nil
  then show ?case by simp
next
  case (Cons ev evs)
  obtain s1 out1 where h: "handle_event cfg s ev = (s1, out1)" by (cases "handle_event cfg s ev")
  obtain s2 out2 where r: "run_events cfg evs s1 = (s2, out2)" by (cases "run_events cfg evs s1")
  from Cons.prems(2) h r have eq: "s' = s2" "out = out1 @ out2" by simp_all
  from Cons.prems(1) have n1: "\<not> releases_combo_key d ev"
    and n2: "\<forall>ev \<in> set evs. \<not> releases_combo_key d ev" by simp_all
  note st = handle_event_hotkey[OF dist mem free n1 h]
  note ih = Cons.IH[OF n2 r]
  have c: "combo_completed_in cfg d (ev # evs) s
             \<longleftrightarrow> completes_combo d s ev \<or> combo_completed_in cfg d evs s1"
    using h by simp
  show ?case
    unfolding eq c using st ih en by (cases "has_key (active_combos s) hid") auto
qed

lemma run_events_pressed_superset:
  assumes run: "run_events cfg evs s = (s', out)"
    and "K \<subseteq> pressed_keys s'" "\<not> K \<subseteq> pressed_keys s"
    and "K = set (hk_keys d)"
  shows "combo_completed_in cfg d evs s"
  using assms
proof (induction evs arbitrary: s s' out)
  case Nil
  then show ?case by simp
next
  case (Cons ev evs)
  obtain s1 out1 where h: "handle_event cfg s ev = (s1, out1)" by (cases "handle_event cfg s ev")
  obtain s2 out2 where r: "run_events cfg evs s1 = (s2, out2)" by (cases "run_events cfg evs s1")
  from Cons.prems(1) h r have eq: "s' = s2" by simp
  show ?case
  proof (cases "K \<subseteq> pressed_keys s1")
    case False
    from Cons.IH[OF r _ False Cons.prems(4)] Cons.prems(2) eq h show ?thesis by simp
  next
    case True
    have "completes_combo d s ev"
    proof (cases ev)
      case (Key_press nk)
      show ?thesis
      proof (cases nk)
        case (Inl e)
        with Key_press h True Cons.prems(3) show ?thesis by (simp add: on_key_error_state)
      next
        case (Inr k)
        obtain t1 o1 where r1: "for_each press_hotkey (keyboard_hotkeys cfg) (s\<lparr>pressed_keys := insert k (pressed_keys s)\<rparr>) = (t1, o1)"
          by (cases "for_each press_hotkey (keyboard_hotkeys cfg) (s\<lparr>pressed_keys := insert k (pressed_keys s)\<rparr>)")
        obtain t2 o2 where r2: "for_each press_snippet (text_snippets cfg) t1 = (t2, o2)"
          by (cases "for_each press_snippet (text_snippets cfg) t1")
        from h Key_press Inr r1 r2 have "s1 = t2" by (simp add: on_key_press_def Let_def)
        then have "pressed_keys s1 = insert k (pressed_keys s)"
          using press_hotkeys_pressed(1)[OF r1] press_snippets_frame(1)[OF r2] by simp
        with True Key_press Inr Cons.prems(4) show ?thesis by simp
      qed
    next
      case (Key_release nk)
      have "pressed_keys s1 \<subseteq> pressed_keys s"
      proof (cases nk)
        case (Inl e)
        with Key_release h show ?thesis by (simp add: on_key_error_state)
      next
        case (Inr k)
        obtain t1 o1 where r1: "for_each (release_hotkey k) (keyboard_hotkeys cfg) s = (t1, o1)"
          by (cases "for_each (release_hotkey k) (keyboard_hotkeys cfg) s")
        obtain t2 o2 where r2: "for_each (release_snippet k) (text_snippets cfg) t1 = (t2, o2)"
          by (cases "for_each (release_snippet k) (text_snippets cfg) t1")
        from h Key_release Inr r1 r2 have "s1 = t2\<lparr>pressed_keys := pressed_keys t2 - {k}\<rparr>"
          by (auto simp: on_key_release_def release_loops_def)
        then show ?thesis
          using release_hotkeys_frame(1)[OF r1] release_snippets_frame(1)[OF r2] by auto
      qed
      with True Cons.prems(3) show ?thesis by blast
    next
      case (Mouse_click b p)
      with h on_mouse_click_state[of cfg s b p] have "s1 = s" by simp
      with True Cons.prems(3) show ?thesis by simp
    qed
    then show ?thesis by simp
  qed
qed

subsection \<open>macOS: the loops of \<open>check_hotkeys\<close>\<close>

lemma check_hotkey_other:
  assumes "fst y \<noteq> hid" "check_hotkey P y s = (s', out)"
  shows "(pressed_keys s', last_modifiers s', has_key (active_combos s') hid)
           = (pressed_keys s, last_modifiers s, has_key (active_combos s) hid)
         \<and> filter (is_hotkey_signal hid) out = []"
  using assms
  by (cases y) (clarsimp simp: check_hotkey_def has_key_dict_set is_hotkey_signal_def split: if_splits)

lemma check_hotkey_own:
  assumes "check_hotkey P (hid, d) s = (s', out)"
  shows "has_key (active_combos s') hid \<longleftrightarrow>
           has_key (active_combos s) hid \<or> (hk_enabled d \<and> convert_keys_to_macos (hk_keys d) \<subseteq> P)"
    and "filter (is_hotkey_signal hid) out =
           (if hk_enabled d \<and> convert_keys_to_macos (hk_keys d) \<subseteq> P \<and> \<not> has_key (active_combos s) hid
            then [activation_signal hid d] else [])"
proof -
  let ?fire = "hk_enabled d \<and> convert_keys_to_macos (hk_keys d) \<subseteq> P \<and> \<not> has_key (active_combos s) hid"
  have r: "(s', out) =
      (if ?fire then (s\<lparr>active_combos := dict_set (active_combos s) hid True\<rparr>, [activation_signal hid d])
       else (s, []))"
    unfolding assms[symmetric] by (simp add: check_hotkey_def activation_signal_def)
  show "has_key (active_combos s') hid \<longleftrightarrow>
           has_key (active_combos s) hid \<or> (hk_enabled d \<and> convert_keys_to_macos (hk_keys d) \<subseteq> P)"
    using r by (cases ?fire) (auto simp: has_key_dict_set)
  show "filter (is_hotkey_signal hid) out =
           (if hk_enabled d \<and> convert_keys_to_macos (hk_keys d) \<subseteq> P \<and> \<not> has_key (active_combos s) hid
            then [activation_signal hid d] else [])"
    using r by (cases ?fire) (simp_all add: is_hotkey_signal_def activation_signal_def)
qed

lemma check_hotkey_loop_own:
  assumes dist: "distinct (map fst hks)" and mem: "(hid, d) \<in> set hks"
    and run: "for_each (check_hotkey P) hks s = (s', out)"
  shows "has_key (active_combos s') hid \<longleftrightarrow>
           has_key (active_combos s) hid \<or> (hk_enabled d \<and> convert_keys_to_macos (hk_keys d) \<subseteq> P)"
    and "filter (is_hotkey_signal hid) out =
           (if hk_enabled d \<and> convert_keys_to_macos (hk_keys d) \<subseteq> P \<and> \<not> has_key (active_combos s) hid
            then [activation_signal hid d] else [])"
proof -
  let ?f = "\<lambda>s. (pressed_keys s, last_modifiers s, has_key (active_combos s) hid)"
  obtain s1 s2 out1 where f1: "?f s1 = ?f s" and b: "check_hotkey P (hid, d) s1 = (s2, out1)"
    and f2: "?f s' = ?f s2"
    and o: "filter (is_hotkey_signal hid) out = filter (is_hotkey_signal hid) out1"
    using for_each_focus_key[OF dist mem _ run, of ?f "is_hotkey_signal hid"] check_hotkey_other
    by blast
  note own = check_hotkey_own[OF b]
  show "has_key (active_combos s') hid \<longleftrightarrow>
           has_key (active_combos s) hid \<or> (hk_enabled d \<and> convert_keys_to_macos (hk_keys d) \<subseteq> P)"
    using f1 f2 own(1) by simp
  show "filter (is_hotkey_signal hid) out =
           (if hk_enabled d \<and> convert_keys_to_macos (hk_keys d) \<subseteq> P \<and> \<not> has_key (active_combos s) hid
            then [activation_signal hid d] else [])"
    using f1 o own(2) by simp
qed

lemma check_hotkey_loop_frame:
  assumes "for_each (check_hotkey P) hks s = (s', out)"
  shows "pressed_keys s' = pressed_keys s" and "last_modifiers s' = last_modifiers s"
    and "has_key (active_combos s) x \<Longrightarrow> has_key (active_combos s') x"
    and "x \<notin> fst ` set hks \<Longrightarrow> has_key (active_combos s') x = has_key (active_combos s) x"
    and "filter (is_snippet_signal sid) out = []"
proof -
  have a: "(pressed_keys s' = pressed_keys s \<and> last_modifiers s' = last_modifiers s
            \<and> (has_key (active_combos s) x \<longrightarrow> has_key (active_combos s') x))
           \<and> (\<forall>sg \<in> set out. \<not> is_snippet_signal sid sg)"
    by (rule for_each_invariant[OF _ _ assms,
          where I = "\<lambda>t. pressed_keys t = pressed_keys s \<and> last_modifiers t = last_modifiers s
                       \<and> (has_key (active_combos s) x \<longrightarrow> has_key (active_combos t) x)"])
       (clarsimp simp: check_hotkey_def has_key_dict_set is_snippet_signal_def split: if_splits)+
  show "pressed_keys s' = pressed_keys s" "last_modifiers s' = last_modifiers s"
    "has_key (active_combos s) x \<Longrightarrow> has_key (active_combos s') x"
    using a by simp_all
  show "filter (is_snippet_signal sid) out = []" using a by (simp add: filter_empty_conv)
  show "has_key (active_combos s') x = has_key (active_combos s) x" if "x \<notin> fst ` set hks"
  proof -
    have "has_key (active_combos s') x = has_key (active_combos s) x
          \<and> filter (is_hotkey_signal x) out = []"
      by (rule for_each_absent_key[OF that _ assms]) (use check_hotkey_other in blast)
    then show ?thesis by simp
  qed
qed


lemma check_snippet_result:
  "check_snippet P (sid, sc) s =
     (if snip_enabled sc \<and> convert_keys_to_macos (snip_keys sc) = P
         \<and> \<not> has_key (active_combos s) (snippet_key sid)
      then (s\<lparr>active_combos := dict_set (active_combos s) (snippet_key sid) True\<rparr>,
            [snippet_triggered sid (snip_text sc)])
      else (s, []))"
  by (simp add: check_snippet_def Let_def)



lemma check_snippet_loop_frame:
  assumes "for_each (check_snippet P) sns s = (s', out)"
  shows "pressed_keys s' = pressed_keys s" and "last_modifiers s' = last_modifiers s"
    and "has_key (active_combos s) x \<Longrightarrow> has_key (active_combos s') x"
    and "x \<notin> (\<lambda>y. snippet_key (fst y)) ` set sns \<Longrightarrow>
           has_key (active_combos s') x = has_key (active_combos s) x"
    and "filter (is_hotkey_signal hid) out = []"
proof -
  have a: "(pressed_keys s' = pressed_keys s \<and> last_modifiers s' = last_modifiers s
            \<and> (has_key (active_combos s) x \<longrightarrow> has_key (active_combos s') x))
           \<and> (\<forall>sg \<in> set out. \<not> is_hotkey_signal hid sg)"
  proof (rule for_each_invariant[OF _ _ assms,
          where I = "\<lambda>t. pressed_keys t = pressed_keys s \<and> last_modifiers t = last_modifiers s
                       \<and> (has_key (active_combos s) x \<longrightarrow> has_key (active_combos t) x)"])
    fix y t t' o'
    assume "pressed_keys t = pressed_keys s \<and> last_modifiers t = last_modifiers s
                       \<and> (has_key (active_combos s) x \<longrightarrow> has_key (active_combos t) x)"
      and "check_snippet P y t = (t', o')"
    then show "(pressed_keys t' = pressed_keys s \<and> last_modifiers t' = last_modifiers s
                       \<and> (has_key (active_combos s) x \<longrightarrow> has_key (active_combos t') x))
                \<and> (\<forall>sg \<in> set o'. \<not> is_hotkey_signal hid sg)"
      by (cases y) (clarsimp simp: check_snippet_result has_key_dict_set is_hotkey_signal_def split: if_splits)
  qed simp
  show "pressed_keys s' = pressed_keys s" "last_modifiers s' = last_modifiers s"
    "has_key (active_combos s) x \<Longrightarrow> has_key (active_combos s') x"
    using a by simp_all
  show "filter (is_hotkey_signal hid) out = []" using a by (simp add: filter_empty_conv)
  show "has_key (active_combos s') x = has_key (active_combos s) x"
    if "x \<notin> (\<lambda>y. snippet_key (fst y)) ` set sns"
  proof -
    have "has_key (active_combos s') x = has_key (active_combos s) x \<and> filter (\<lambda>_. False) out = []"
    proof (rule for_each_frame[OF _ assms])
      fix y t t' o'
      assume y: "y \<in> set sns" and b: "check_snippet P y t = (t', o')"
      from y that have "x \<noteq> snippet_key (fst y)" by auto
      with b show "has_key (active_combos t') x = has_key (active_combos t) x \<and> filter (\<lambda>_. False) o' = []"
        by (cases y) (clarsimp simp: check_snippet_result has_key_dict_set split: if_splits)
    qed
    then show ?thesis by simp
  qed
qed

subsection \<open>macOS: \<open>check_releases\<close>\<close>

lemma has_key_remove_ids: "has_key (remove_ids A to_remove) x \<longleftrightarrow> has_key A x \<and> x \<notin> set to_remove"
  unfolding remove_ids_def
proof (induction to_remove arbitrary: A)
  case Nil
  then show ?case by simp
next
  case (Cons a to_remove)
  then show ?case by (auto simp: has_key_dict_del)
qed

lemma release_hotkey_macos_other:
  assumes "fst y \<noteq> hid" "release_hotkey_macos R A y tr = (tr', out)"
  shows "(hid \<in> set tr') = (hid \<in> set tr) \<and> filter (is_hotkey_signal hid) out = []"
  using assms
  by (cases y) (clarsimp simp: release_hotkey_macos_def is_hotkey_signal_def split: if_splits)

lemma release_hotkey_macos_own:
  assumes "release_hotkey_macos R A (hid, d) tr = (tr', out)"
  shows "hid \<in> set tr' \<longleftrightarrow>
           hid \<in> set tr \<or> (has_key A hid \<and> R \<inter> convert_keys_to_macos (hk_keys d) \<noteq> {})"
    and "filter (is_hotkey_signal hid) out =
           (if has_key A hid \<and> R \<inter> convert_keys_to_macos (hk_keys d) \<noteq> {} \<and> hk_mode d = ''hold''
            then [hotkey_pressed hid ''release''] else [])"
proof -
  let ?ends = "has_key A hid \<and> R \<inter> convert_keys_to_macos (hk_keys d) \<noteq> {}"
  have r: "(tr', out) =
      (if ?ends then (tr @ [hid], if hk_mode d = ''hold'' then [hotkey_pressed hid ''release''] else [])
       else (tr, []))"
    unfolding assms[symmetric] by (simp add: release_hotkey_macos_def)
  show "hid \<in> set tr' \<longleftrightarrow>
           hid \<in> set tr \<or> (has_key A hid \<and> R \<inter> convert_keys_to_macos (hk_keys d) \<noteq> {})"
    using r by (cases ?ends) auto
  show "filter (is_hotkey_signal hid) out =
           (if has_key A hid \<and> R \<inter> convert_keys_to_macos (hk_keys d) \<noteq> {} \<and> hk_mode d = ''hold''
            then [hotkey_pressed hid ''release''] else [])"
    using r by (cases ?ends) (simp_all add: is_hotkey_signal_def)
qed

lemma release_hotkey_macos_loop_own:
  assumes dist: "distinct (map fst hks)" and mem: "(hid, d) \<in> set hks"
    and run: "for_each (release_hotkey_macos R A) hks tr = (tr', out)"
  shows "hid \<in> set tr' \<longleftrightarrow>
           hid \<in> set tr \<or> (has_key A hid \<and> R \<inter> convert_keys_to_macos (hk_keys d) \<noteq> {})"
    and "filter (is_hotkey_signal hid) out =
           (if has_key A hid \<and> R \<inter> convert_keys_to_macos (hk_keys d) \<noteq> {} \<and> hk_mode d = ''hold''
            then [hotkey_pressed hid ''release''] else [])"
proof -
  let ?f = "\<lambda>tr. hid \<in> set tr"
  obtain t1 t2 out1 where f1: "?f t1 = ?f tr" and b: "release_hotkey_macos R A (hid, d) t1 = (t2, out1)"
    and f2: "?f tr' = ?f t2"
    and o: "filter (is_hotkey_signal hid) out = filter (is_hotkey_signal hid) out1"
    using for_each_focus_key[OF dist mem _ run, of ?f "is_hotkey_signal hid"] release_hotkey_macos_other
    by blast
  note own = release_hotkey_macos_own[OF b]
  show "hid \<in> set tr' \<longleftrightarrow>
           hid \<in> set tr \<or> (has_key A hid \<and> R \<inter> convert_keys_to_macos (hk_keys d) \<noteq> {})"
    using f1 f2 own(1) by simp
  show "filter (is_hotkey_signal hid) out =
           (if has_key A hid \<and> R \<inter> convert_keys_to_macos (hk_keys d) \<noteq> {} \<and> hk_mode d = ''hold''
            then [hotkey_pressed hid ''release''] else [])"
    using o own(2) by simp
qed

lemma release_hotkey_macos_loop_frame:
  assumes "for_each (release_hotkey_macos R A) hks tr = (tr', out)"
  shows "x \<notin> fst ` set hks \<Longrightarrow> (x \<in> set tr') = (x \<in> set tr)"
    and "sg \<in> set out \<Longrightarrow> \<exists>i. sg = hotkey_pressed i ''release''"
proof -
  have a: "True \<and> (\<forall>sg \<in> set out. \<exists>i. sg = hotkey_pressed i ''release'')"
    by (rule for_each_invariant[OF _ _ assms, where I = "\<lambda>t. True"])
       (clarsimp simp: release_hotkey_macos_def split: if_splits)+
  then show "sg \<in> set out \<Longrightarrow> \<exists>i. sg = hotkey_pressed i ''release''" by blast
  show "(x \<in> set tr') = (x \<in> set tr)" if "x \<notin> fst ` set hks"
  proof -
    have "(x \<in> set tr') = (x \<in> set tr) \<and> filter (is_hotkey_signal x) out = []"
      by (rule for_each_absent_key[OF that _ assms]) (use release_hotkey_macos_other in blast)
    then show ?thesis by simp
  qed
qed

lemma snippet_prefix: "take 8 x = ''snippet:'' \<Longrightarrow> x = snippet_key (drop 8 x)"
  unfolding snippet_key_def by (metis append_take_drop_id)

lemma release_snippet_macos_loop:
  assumes "for_each (release_snippet_macos cfg R) ks tr = (tr', out)"
  shows "out = []"
    and "x \<notin> snippet_keys cfg \<Longrightarrow> (x \<in> set tr') = (x \<in> set tr)"
proof -
  have a: "((x \<notin> snippet_keys cfg \<longrightarrow> (x \<in> set tr') = (x \<in> set tr))) \<and> (\<forall>sg \<in> set out. False)"
  proof (rule for_each_invariant[OF _ _ assms,
          where I = "\<lambda>t. x \<notin> snippet_keys cfg \<longrightarrow> (x \<in> set t) = (x \<in> set tr)"])
    fix y t t' o'
    assume inv: "x \<notin> snippet_keys cfg \<longrightarrow> (x \<in> set t) = (x \<in> set tr)"
      and b: "release_snippet_macos cfg R y t = (t', o')"
    have o: "o' = []" using b
      by (auto simp: release_snippet_macos_def Let_def split: if_splits option.splits)
    have "(x \<in> set t') = (x \<in> set t)" if free: "x \<notin> snippet_keys cfg"
    proof (cases "t' = t")
      case True
      then show ?thesis by simp
    next
      case False
      with b obtain sc where p: "take 8 y = ''snippet:''"
        and m: "map_of (text_snippets cfg) (drop 8 y) = Some sc" and t': "t' = t @ [y]"
        by (auto simp: release_snippet_macos_def Let_def split: if_splits option.splits)
      from m have "(drop 8 y, sc) \<in> set (text_snippets cfg)" by (rule map_of_SomeD)
      then have "snippet_key (drop 8 y) \<in> snippet_keys cfg"
        unfolding snippet_keys_def by force
      with snippet_prefix[OF p] have "y \<in> snippet_keys cfg" by simp
      with free have "x \<noteq> y" by auto
      with t' show ?thesis by simp
    qed
    with inv o show "(x \<notin> snippet_keys cfg \<longrightarrow> (x \<in> set t') = (x \<in> set tr)) \<and> (\<forall>sg \<in> set o'. False)"
      by simp
  qed simp
  show "out = []" using a by (cases out) auto
  show "x \<notin> snippet_keys cfg \<Longrightarrow> (x \<in> set tr') = (x \<in> set tr)" using a by simp
qed

lemma set_for_each_mono:
  assumes step: "\<And>y t t' out. body y t = (t', out) \<Longrightarrow> set t \<subseteq> set t'"
    and run: "for_each body ys tr = (tr', out)"
  shows "set tr \<subseteq> set tr'"
proof -
  have "set tr \<subseteq> set tr' \<and> (\<forall>sg \<in> set out. True)"
    by (rule for_each_invariant[OF _ _ run, where I = "\<lambda>t. set tr \<subseteq> set t"])
       (use step in blast)+
  then show ?thesis by simp
qed

lemma check_releases_hotkey:
  assumes dist: "distinct (map fst (keyboard_hotkeys cfg))"
    and mem: "(hid, d) \<in> set (keyboard_hotkeys cfg)"
    and run: "check_releases cfg s R = (s', out)"
  shows "pressed_keys s' = pressed_keys s" and "last_modifiers s' = last_modifiers s"
    and "filter (is_hotkey_signal hid) out =
           (if has_key (active_combos s) hid \<and> R \<inter> convert_keys_to_macos (hk_keys d) \<noteq> {}
               \<and> hk_mode d = ''hold''
            then [hotkey_pressed hid ''release''] else [])"
    and "has_key (active_combos s') hid \<Longrightarrow>
           has_key (active_combos s) hid \<and> R \<inter> convert_keys_to_macos (hk_keys d) = {}"
    and "hid \<notin> snippet_keys cfg \<Longrightarrow>
           has_key (active_combos s') hid \<longleftrightarrow>
             has_key (active_combos s) hid \<and> R \<inter> convert_keys_to_macos (hk_keys d) = {}"
    and "sg \<in> set out \<Longrightarrow> \<exists>i. sg = hotkey_pressed i ''release''"
proof -
  obtain tr1 out1 where r1:
    "for_each (release_hotkey_macos R (active_combos s)) (keyboard_hotkeys cfg) [] = (tr1, out1)"
    by (cases "for_each (release_hotkey_macos R (active_combos s)) (keyboard_hotkeys cfg) []")
  obtain tr2 out2 where r2:
    "for_each (release_snippet_macos cfg R) (map fst (active_combos s)) tr1 = (tr2, out2)"
    by (cases "for_each (release_snippet_macos cfg R) (map fst (active_combos s)) tr1")
  from run r1 r2 have eq: "s' = s\<lparr>active_combos := remove_ids (active_combos s) tr2\<rparr>"
    "out = out1 @ out2"
    by (simp_all add: check_releases_def)
  note h = release_hotkey_macos_loop_own[OF dist mem r1]
  note sn = release_snippet_macos_loop[OF r2]
  have mono: "set tr1 \<subseteq> set tr2"
    by (rule set_for_each_mono[OF _ r2])
       (auto simp: release_snippet_macos_def Let_def split: if_splits option.splits)
  show "pressed_keys s' = pressed_keys s" "last_modifiers s' = last_modifiers s"
    using eq by simp_all
  show "filter (is_hotkey_signal hid) out =
           (if has_key (active_combos s) hid \<and> R \<inter> convert_keys_to_macos (hk_keys d) \<noteq> {}
               \<and> hk_mode d = ''hold''
            then [hotkey_pressed hid ''release''] else [])"
    using eq h(2) sn(1) by simp
  show "has_key (active_combos s) hid \<and> R \<inter> convert_keys_to_macos (hk_keys d) = {}"
    if "has_key (active_combos s') hid"
    using that eq h(1) mono by (auto simp: has_key_remove_ids)
  show "has_key (active_combos s') hid \<longleftrightarrow>
             has_key (active_combos s) hid \<and> R \<inter> convert_keys_to_macos (hk_keys d) = {}"
    if "hid \<notin> snippet_keys cfg"
    using eq h(1) sn(2)[OF that] by (auto simp: has_key_remove_ids)
  show "\<exists>i. sg = hotkey_pressed i ''release''" if "sg \<in> set out"
    using that eq sn(1) release_hotkey_macos_loop_frame(2)[OF r1] by simp
qed


subsection \<open>macOS: \<open>check_hotkeys\<close> and \<open>event_callback\<close>, seen from one keyboard entry\<close>

lemma check_hotkeys_hotkey:
  assumes dist: "distinct (map fst (keyboard_hotkeys cfg))"
    and mem: "(hid, d) \<in> set (keyboard_hotkeys cfg)"
    and run: "check_hotkeys cfg s P = (s', out)"
  shows "pressed_keys s' = pressed_keys s" and "last_modifiers s' = last_modifiers s"
    and "filter (is_hotkey_signal hid) out =
           (if hk_enabled d \<and> convert_keys_to_macos (hk_keys d) \<subseteq> P
               \<and> \<not> has_key (active_combos s) hid
            then [activation_signal hid d] else [])"
    and "has_key (active_combos s) hid \<or> (hk_enabled d \<and> convert_keys_to_macos (hk_keys d) \<subseteq> P)
           \<Longrightarrow> has_key (active_combos s') hid"
    and "hid \<notin> snippet_keys cfg \<Longrightarrow>
           has_key (active_combos s') hid \<longleftrightarrow>
             has_key (active_combos s) hid \<or> (hk_enabled d \<and> convert_keys_to_macos (hk_keys d) \<subseteq> P)"
proof -
  obtain s1 out1 where r1: "for_each (check_hotkey P) (keyboard_hotkeys cfg) s = (s1, out1)"
    by (cases "for_each (check_hotkey P) (keyboard_hotkeys cfg) s")
  obtain s2 out2 where r2: "for_each (check_snippet P) (text_snippets cfg) s1 = (s2, out2)"
    by (cases "for_each (check_snippet P) (text_snippets cfg) s1")
  from run r1 r2 have eq: "s' = s2" "out = out1 @ out2"
    by (simp_all add: check_hotkeys_def)
  note h = check_hotkey_loop_own[OF dist mem r1]
  note hf = check_hotkey_loop_frame[OF r1]
  note sn = check_snippet_loop_frame[OF r2]
  show "pressed_keys s' = pressed_keys s" "last_modifiers s' = last_modifiers s"
    using eq hf(1,2) sn(1,2) by simp_all
  show "filter (is_hotkey_signal hid) out =
           (if hk_enabled d \<and> convert_keys_to_macos (hk_keys d) \<subseteq> P
               \<and> \<not> has_key (active_combos s) hid
            then [activation_signal hid d] else [])"
    using eq h(2) sn(5)[of hid] by simp
  show "has_key (active_combos s') hid"
    if "has_key (active_combos s) hid \<or> (hk_enabled d \<and> convert_keys_to_macos (hk_keys d) \<subseteq> P)"
    using that eq h(1) sn(3)[of hid] by simp
  show "has_key (active_combos s') hid \<longleftrightarrow>
             has_key (active_combos s) hid \<or> (hk_enabled d \<and> convert_keys_to_macos (hk_keys d) \<subseteq> P)"
    if "hid \<notin> snippet_keys cfg"
    using that eq h(1) sn(4)[of hid] by (simp add: snippet_keys_def)
qed

lemma for_each_mouse_macos_no_hotkey_signal:
  "for_each mouse_down_hotkey xs s = (s', out) \<Longrightarrow> s' = s \<and> filter (is_hotkey_signal hid) out = []"
  "for_each mouse_up_hotkey xs s = (s', out) \<Longrightarrow> s' = s \<and> filter (is_hotkey_signal hid) out = []"
proof -
  show "s' = s \<and> filter (is_hotkey_signal hid) out = []" if r: "for_each mouse_down_hotkey xs s = (s', out)"
  proof -
    have "id s' = id s \<and> filter (is_hotkey_signal hid) out = []"
      by (rule for_each_frame[OF _ r])
         (auto simp: mouse_down_hotkey_def is_hotkey_signal_def split: if_splits)
    then show ?thesis by simp
  qed
  show "s' = s \<and> filter (is_hotkey_signal hid) out = []" if r: "for_each mouse_up_hotkey xs s = (s', out)"
  proof -
    have "id s' = id s \<and> filter (is_hotkey_signal hid) out = []"
      by (rule for_each_frame[OF _ r])
         (auto simp: mouse_up_hotkey_def is_hotkey_signal_def split: if_splits)
    then show ?thesis by simp
  qed
qed

lemma event_callback_flags_changed:
  assumes run: "event_callback cfg s (Flags_changed (Inr flags)) = (s', out)"
  obtains s1 out1 s3 out2 where
    "(if last_modifiers s - get_modifier_names flags \<noteq> {}
      then check_releases cfg (s\<lparr>last_modifiers := get_modifier_names flags\<rparr>)
             (last_modifiers s - get_modifier_names flags)
      else (s\<lparr>last_modifiers := get_modifier_names flags\<rparr>, [])) = (s1, out1)"
    and "(if get_modifier_names flags - last_modifiers s \<noteq> {}
          then check_hotkeys cfg
                 (s1\<lparr>pressed_keys := (pressed_keys s1 - modifier_names) \<union> get_modifier_names flags\<rparr>)
                 ((pressed_keys s1 - modifier_names) \<union> get_modifier_names flags)
          else (s1\<lparr>pressed_keys := (pressed_keys s1 - modifier_names) \<union> get_modifier_names flags\<rparr>, []))
         = (s3, out2)"
    and "s' = s3" and "out = out1 @ out2"
proof -
  let ?cur = "get_modifier_names flags"
  let ?rel = "(if last_modifiers s - ?cur \<noteq> {}
      then check_releases cfg (s\<lparr>last_modifiers := ?cur\<rparr>) (last_modifiers s - ?cur)
      else (s\<lparr>last_modifiers := ?cur\<rparr>, []))"
  obtain s1 out1 where r1: "?rel = (s1, out1)" by (cases ?rel)
  let ?s2 = "s1\<lparr>pressed_keys := (pressed_keys s1 - modifier_names) \<union> ?cur\<rparr>"
  let ?chk = "(if ?cur - last_modifiers s \<noteq> {}
          then check_hotkeys cfg ?s2 ((pressed_keys s1 - modifier_names) \<union> ?cur)
          else (?s2, []))"
  obtain s3 out2 where r2: "?chk = (s3, out2)" by (cases ?chk)
  have "event_callback cfg s (Flags_changed (Inr flags)) = (s3, out1 @ out2)"
    using r1 r2 by (simp add: Let_def Un_assoc split: if_splits)
  with run have "s' = s3" "out = out1 @ out2" by simp_all
  with r1 r2 show ?thesis using that by blast
qed

lemma event_callback_hotkey:
  assumes dist: "distinct (map fst (keyboard_hotkeys cfg))"
    and mem: "(hid, d) \<in> set (keyboard_hotkeys cfg)"
    and free: "hid \<notin> snippet_keys cfg"
    and norel: "\<not> releases_combo_key_macos d s ev"
    and run: "event_callback cfg s ev = (s', out)"
  shows "filter (is_hotkey_signal hid) out =
           (if hk_enabled d \<and> completes_combo_macos d s ev \<and> \<not> has_key (active_combos s) hid
            then [activation_signal hid d] else [])
         \<and> (has_key (active_combos s') hid \<longleftrightarrow>
              has_key (active_combos s) hid \<or> (hk_enabled d \<and> completes_combo_macos d s ev))"
proof (cases ev)
  case (Flags_changed fl)
  show ?thesis
  proof (cases fl)
    case (Inl e)
    with Flags_changed run show ?thesis by (simp add: completes_combo_macos_def)
  next
    case (Inr flags)
    let ?cur = "get_modifier_names flags"
    let ?R = "last_modifiers s - ?cur"
    let ?P = "(pressed_keys s - modifier_names) \<union> ?cur"
    from run Flags_changed Inr
    have run': "event_callback cfg s (Flags_changed (Inr flags)) = (s', out)" by simp
    from norel Flags_changed Inr
    have nr: "?R \<inter> convert_keys_to_macos (hk_keys d) = {}"
      by (simp add: releases_combo_key_macos_def)
    obtain s1 out1 s3 out2 where
      r1: "(if ?R \<noteq> {} then check_releases cfg (s\<lparr>last_modifiers := ?cur\<rparr>) ?R
            else (s\<lparr>last_modifiers := ?cur\<rparr>, [])) = (s1, out1)"
      and r2: "(if ?cur - last_modifiers s \<noteq> {}
          then check_hotkeys cfg
                 (s1\<lparr>pressed_keys := (pressed_keys s1 - modifier_names) \<union> ?cur\<rparr>)
                 ((pressed_keys s1 - modifier_names) \<union> ?cur)
          else (s1\<lparr>pressed_keys := (pressed_keys s1 - modifier_names) \<union> ?cur\<rparr>, []))
         = (s3, out2)"
      and eq: "s' = s3" "out = out1 @ out2"
      using event_callback_flags_changed[OF run'] by blast
    have s1: "pressed_keys s1 = pressed_keys s \<and> has_key (active_combos s1) hid = has_key (active_combos s) hid
              \<and> filter (is_hotkey_signal hid) out1 = []"
    proof (cases "?R \<noteq> {}")
      case True
      with r1 have c: "check_releases cfg (s\<lparr>last_modifiers := ?cur\<rparr>) ?R = (s1, out1)" by simp
      show ?thesis
        using check_releases_hotkey(1)[OF dist mem c] check_releases_hotkey(3)[OF dist mem c]
          check_releases_hotkey(5)[OF dist mem c free] nr by simp
    next
      case False
      with r1 show ?thesis by auto
    qed
    let ?s2 = "s1\<lparr>pressed_keys := (pressed_keys s1 - modifier_names) \<union> ?cur\<rparr>"
    have comp: "completes_combo_macos d s ev \<longleftrightarrow>
                  ?cur - last_modifiers s \<noteq> {} \<and> convert_keys_to_macos (hk_keys d) \<subseteq> ?P"
      using Flags_changed Inr by (simp add: completes_combo_macos_def)
    show ?thesis
    proof (cases "?cur - last_modifiers s \<noteq> {}")
      case True
      with r2 s1 have c: "check_hotkeys cfg ?s2 ?P = (s3, out2)" by simp
      show ?thesis
        using check_hotkeys_hotkey(3)[OF dist mem c] check_hotkeys_hotkey(5)[OF dist mem c free]
          s1 eq comp True by simp
    next
      case False
      with r2 have "s3 = ?s2" "out2 = []" by auto
      with s1 eq comp False show ?thesis by simp
    qed
  qed
next
  case (Key_down kc fl)
  show ?thesis
  proof (cases kc)
    case (Inl e)
    with Key_down run show ?thesis by (simp add: completes_combo_macos_def)
  next
    case kcr: (Inr keycode)
    show ?thesis
    proof (cases "keycode_to_name keycode")
      case None
      with Key_down kcr run show ?thesis by (simp add: completes_combo_macos_def)
    next
      case (Some k)
      show ?thesis
      proof (cases "k = []")
        case True
        with Key_down kcr Some run show ?thesis by (simp add: completes_combo_macos_def)
      next
        case False
        show ?thesis
        proof (cases fl)
          case (Inl e)
          with Key_down kcr Some False run show ?thesis by (auto simp: completes_combo_macos_def)
        next
          case (Inr flags)
          let ?s0 = "s\<lparr>pressed_keys := insert k (pressed_keys s)\<rparr>"
          let ?P = "insert k (pressed_keys s) \<union> get_modifier_names flags"
          from Key_down kcr Some False Inr run
          have c: "check_hotkeys cfg ?s0 ?P = (s', out)" by simp
          have comp: "completes_combo_macos d s ev \<longleftrightarrow> convert_keys_to_macos (hk_keys d) \<subseteq> ?P"
            using Key_down kcr Some False Inr by (simp add: completes_combo_macos_def)
          show ?thesis
            using check_hotkeys_hotkey(3)[OF dist mem c] check_hotkeys_hotkey(5)[OF dist mem c free]
              comp by simp
        qed
      qed
    qed
  qed
next
  case (Key_up kc fl)
  have comp: "\<not> completes_combo_macos d s ev" using Key_up by (simp add: completes_combo_macos_def)
  show ?thesis
  proof (cases kc)
    case (Inl e)
    with Key_up run comp show ?thesis by simp
  next
    case kcr: (Inr keycode)
    show ?thesis
    proof (cases "keycode_to_name keycode")
      case None
      with Key_up kcr run comp show ?thesis by simp
    next
      case (Some k)
      show ?thesis
      proof (cases "k = []")
        case True
        with Key_up kcr Some run comp show ?thesis by simp
      next
        case False
        show ?thesis
        proof (cases fl)
          case (Inl e)
          with Key_up kcr Some False run comp show ?thesis by simp
        next
          case (Inr flags)
          obtain s1 o1 where c: "check_releases cfg s {k} = (s1, o1)"
            by (cases "check_releases cfg s {k}")
          with Key_up kcr Some False Inr run
          have eq: "s' = s1\<lparr>pressed_keys := pressed_keys s1 - {k}\<rparr>" "out = o1" by auto
          from norel Key_up kcr Some False Inr
          have nr: "{k} \<inter> convert_keys_to_macos (hk_keys d) = {}"
            by (simp add: releases_combo_key_macos_def)
          show ?thesis
            using check_releases_hotkey(3)[OF dist mem c] check_releases_hotkey(5)[OF dist mem c free]
              nr eq comp by simp
        qed
      qed
    qed
  qed
next
  case (Other_mouse_down b)
  have comp: "\<not> completes_combo_macos d s ev"
    using Other_mouse_down by (simp add: completes_combo_macos_def)
  have "s' = s \<and> filter (is_hotkey_signal hid) out = []"
    using run Other_mouse_down for_each_mouse_macos_no_hotkey_signal(1)[of "mouse_hotkeys cfg" s s' out hid]
    by (cases b) (auto split: if_splits)
  with comp show ?thesis by simp
next
  case (Other_mouse_up b)
  have comp: "\<not> completes_combo_macos d s ev"
    using Other_mouse_up by (simp add: completes_combo_macos_def)
  have "s' = s \<and> filter (is_hotkey_signal hid) out = []"
    using run Other_mouse_up for_each_mouse_macos_no_hotkey_signal(2)[of "mouse_hotkeys cfg" s s' out hid]
    by (cases b) (auto split: if_splits)
  with comp show ?thesis by simp
next
  case Other_event
  with run show ?thesis by (simp add: completes_combo_macos_def)
qed

lemma run_callbacks_hotkey:
  assumes dist: "distinct (map fst (keyboard_hotkeys cfg))"
    and mem: "(hid, d) \<in> set (keyboard_hotkeys cfg)"
    and en: "hk_enabled d"
    and free: "hid \<notin> snippet_keys cfg"
    and norel: "\<not> combo_key_released_in_macos cfg d evs s"
    and run: "run_callbacks cfg evs s = (s', out)"
  shows "filter (is_hotkey_signal hid) out =
           (if combo_completed_in_macos cfg d evs s \<and> \<not> has_key (active_combos s) hid
            then [activation_signal hid d] else [])
         \<and> (has_key (active_combos s') hid \<longleftrightarrow>
              has_key (active_combos s) hid \<or> combo_completed_in_macos cfg d evs s)"
  using norel run
proof (induction evs arbitrary: s s' out)
  case Nil
  then show ?case by simp
next
  case (Cons ev evs)
  obtain s1 out1 where h: "event_callback cfg s ev = (s1, out1)" by (cases "event_callback cfg s ev")
  obtain s2 out2 where r: "run_callbacks cfg evs s1 = (s2, out2)" by (cases "run_callbacks cfg evs s1")
  from Cons.prems(2) h r have eq: "s' = s2" "out = out1 @ out2" by simp_all
  from Cons.prems(1) h have n1: "\<not> releases_combo_key_macos d s ev"
    and n2: "\<not> combo_key_released_in_macos cfg d evs s1" by simp_all
  note st = event_callback_hotkey[OF dist mem free n1 h]
  note ih = Cons.IH[OF n2 r]
  have c: "combo_completed_in_macos cfg d (ev # evs) s
             \<longleftrightarrow> completes_combo_macos d s ev \<or> combo_completed_in_macos cfg d evs s1"
    using h by simp
  show ?case
    unfolding eq c using st ih en by (cases "has_key (active_combos s) hid") auto
qed

subsection \<open>macOS: the pressed set and the last modifiers\<close>

lemma get_modifier_names_subset: "get_modifier_names flags \<subseteq> modifier_names"
  by (simp add: get_modifier_names_def modifier_names_def)

lemma keycode_name_not_modifier:
  assumes "keycode_to_name keycode = Some k"
  shows "k \<notin> modifier_names"
proof -
  from assms have "(keycode, k) \<in> set keycode_map"
    unfolding keycode_to_name_def by (rule map_of_SomeD)
  then have "k \<in> snd ` set keycode_map" by force
  moreover have "snd ` set keycode_map \<inter> modifier_names = {}"
    by (simp add: keycode_map_def modifier_names_def)
  ultimately show ?thesis by blast
qed

lemma check_hotkeys_key_state:
  assumes "check_hotkeys cfg s P = (s', out)"
  shows "pressed_keys s' = pressed_keys s" and "last_modifiers s' = last_modifiers s"
proof -
  obtain s1 out1 where r1: "for_each (check_hotkey P) (keyboard_hotkeys cfg) s = (s1, out1)"
    by (cases "for_each (check_hotkey P) (keyboard_hotkeys cfg) s")
  obtain s2 out2 where r2: "for_each (check_snippet P) (text_snippets cfg) s1 = (s2, out2)"
    by (cases "for_each (check_snippet P) (text_snippets cfg) s1")
  from assms r1 r2 have eq: "s' = s2" by (simp add: check_hotkeys_def)
  show "pressed_keys s' = pressed_keys s" "last_modifiers s' = last_modifiers s"
    using eq check_hotkey_loop_frame(1,2)[OF r1] check_snippet_loop_frame(1,2)[OF r2] by simp_all
qed

lemma check_releases_key_state:
  assumes "check_releases cfg s R = (s', out)"
  shows "pressed_keys s' = pressed_keys s" and "last_modifiers s' = last_modifiers s"
  using assms by (auto simp: check_releases_def split: prod.splits)

lemma flags_changed_key_state:
  assumes "event_callback cfg s (Flags_changed (Inr flags)) = (s', out)"
  shows "pressed_keys s' = (pressed_keys s - modifier_names) \<union> get_modifier_names flags"
    and "last_modifiers s' = get_modifier_names flags"
proof -
  let ?cur = "get_modifier_names flags"
  obtain s1 out1 s3 out2 where
    r1: "(if last_modifiers s - ?cur \<noteq> {}
          then check_releases cfg (s\<lparr>last_modifiers := ?cur\<rparr>) (last_modifiers s - ?cur)
          else (s\<lparr>last_modifiers := ?cur\<rparr>, [])) = (s1, out1)"
    and r2: "(if ?cur - last_modifiers s \<noteq> {}
          then check_hotkeys cfg
                 (s1\<lparr>pressed_keys := (pressed_keys s1 - modifier_names) \<union> ?cur\<rparr>)
                 ((pressed_keys s1 - modifier_names) \<union> ?cur)
          else (s1\<lparr>pressed_keys := (pressed_keys s1 - modifier_names) \<union> ?cur\<rparr>, []))
         = (s3, out2)"
    and eq: "s' = s3" "out = out1 @ out2"
    using event_callback_flags_changed[OF assms] by blast
  have s1: "pressed_keys s1 = pressed_keys s \<and> last_modifiers s1 = ?cur"
  proof (cases "last_modifiers s - ?cur \<noteq> {}")
    case True
    with r1 have c: "check_releases cfg (s\<lparr>last_modifiers := ?cur\<rparr>) (last_modifiers s - ?cur) = (s1, out1)"
      by simp
    show ?thesis using check_releases_key_state[OF c] by simp
  next
    case False
    with r1 have "s1 = s\<lparr>last_modifiers := ?cur\<rparr>" by simp
    then show ?thesis by simp
  qed
  have s3: "pressed_keys s3 = (pressed_keys s - modifier_names) \<union> ?cur \<and> last_modifiers s3 = ?cur"
  proof (cases "?cur - last_modifiers s \<noteq> {}")
    case True
    with r2 have c: "check_hotkeys cfg
                 (s1\<lparr>pressed_keys := (pressed_keys s1 - modifier_names) \<union> ?cur\<rparr>)
                 ((pressed_keys s1 - modifier_names) \<union> ?cur) = (s3, out2)" by simp
    show ?thesis using check_hotkeys_key_state[OF c] s1 by simp
  next
    case False
    with r2 have "s3 = s1\<lparr>pressed_keys := (pressed_keys s1 - modifier_names) \<union> ?cur\<rparr>" by simp
    with s1 show ?thesis by simp
  qed
  show "pressed_keys s' = (pressed_keys s - modifier_names) \<union> get_modifier_names flags"
    and "last_modifiers s' = get_modifier_names flags"
    using s3 eq(1) by simp_all
qed

lemma key_down_key_state:
  assumes "event_callback cfg s (Key_down (Inr keycode) fl) = (s', out)"
    and "keycode_to_name keycode = Some k" and "k \<noteq> []"
  shows "pressed_keys s' = insert k (pressed_keys s)" and "last_modifiers s' = last_modifiers s"
proof -
  have "pressed_keys s' = insert k (pressed_keys s) \<and> last_modifiers s' = last_modifiers s"
  proof (cases fl)
    case (Inl e)
    with assms show ?thesis by auto
  next
    case (Inr flags)
    with assms have c: "check_hotkeys cfg (s\<lparr>pressed_keys := insert k (pressed_keys s)\<rparr>)
                          (insert k (pressed_keys s) \<union> get_modifier_names flags) = (s', out)"
      by simp
    show ?thesis using check_hotkeys_key_state[OF c] by simp
  qed
  then show "pressed_keys s' = insert k (pressed_keys s)" and "last_modifiers s' = last_modifiers s"
    by simp_all
qed

lemma key_up_key_state:
  assumes "event_callback cfg s (Key_up (Inr keycode) (Inr flags)) = (s', out)"
    and "keycode_to_name keycode = Some k" and "k \<noteq> []"
  shows "pressed_keys s' = pressed_keys s - {k}" and "last_modifiers s' = last_modifiers s"
proof -
  obtain s1 o1 where c: "check_releases cfg s {k} = (s1, o1)" by (cases "check_releases cfg s {k}")
  with assms have "s' = s1\<lparr>pressed_keys := pressed_keys s1 - {k}\<rparr>" by auto
  then show "pressed_keys s' = pressed_keys s - {k}" and "last_modifiers s' = last_modifiers s"
    using check_releases_key_state[OF c] by simp_all
qed

lemma event_callback_pressed_mono:
  assumes run: "event_callback cfg s ev = (s', out)"
    and ok: "accessors_return ev"
    and inv: "last_modifiers s \<subseteq> pressed_keys s" "last_modifiers s \<subseteq> modifier_names"
  shows "last_modifiers s' \<subseteq> pressed_keys s'" and "last_modifiers s' \<subseteq> modifier_names"
    and "K \<subseteq> pressed_keys s' \<Longrightarrow> \<not> K \<subseteq> pressed_keys s \<Longrightarrow> K = convert_keys_to_macos (hk_keys d)
           \<Longrightarrow> completes_combo_macos d s ev"
proof -
  have "last_modifiers s' \<subseteq> pressed_keys s' \<and> last_modifiers s' \<subseteq> modifier_names
        \<and> (convert_keys_to_macos (hk_keys d) \<subseteq> pressed_keys s'
             \<and> \<not> convert_keys_to_macos (hk_keys d) \<subseteq> pressed_keys s
            \<longrightarrow> completes_combo_macos d s ev)"
  proof (cases ev)
    case (Flags_changed fl)
    with ok obtain flags where fl: "fl = Inr flags" by (cases fl) auto
    note st = flags_changed_key_state[OF run[unfolded Flags_changed fl]]
    have "completes_combo_macos d s ev"
      if a: "convert_keys_to_macos (hk_keys d) \<subseteq> pressed_keys s'"
        and b: "\<not> convert_keys_to_macos (hk_keys d) \<subseteq> pressed_keys s"
    proof -
      have "get_modifier_names flags - last_modifiers s \<noteq> {}"
      proof
        assume "get_modifier_names flags - last_modifiers s = {}"
        then have "get_modifier_names flags \<subseteq> pressed_keys s" using inv(1) by blast
        then have "pressed_keys s' \<subseteq> pressed_keys s" using st(1) by blast
        with a b show False by blast
      qed
      with a st(1) show ?thesis
        using Flags_changed fl by (simp add: completes_combo_macos_def)
    qed
    with st get_modifier_names_subset show ?thesis by auto
  next
    case (Key_down kc fl)
    with ok obtain keycode flags where kc: "kc = Inr keycode" and fl: "fl = Inr flags"
      by (cases kc; cases fl) auto
    show ?thesis
    proof (cases "keycode_to_name keycode")
      case None
      with run Key_down kc inv show ?thesis by auto
    next
      case (Some k)
      show ?thesis
      proof (cases "k = []")
        case True
        with run Key_down kc Some inv show ?thesis by auto
      next
        case False
        note st = key_down_key_state[OF run[unfolded Key_down kc] Some False]
        have "completes_combo_macos d s ev"
          if "convert_keys_to_macos (hk_keys d) \<subseteq> pressed_keys s'"
          using that st(1) Key_down kc fl Some False
          by (auto simp: completes_combo_macos_def)
        with st inv show ?thesis by auto
      qed
    qed
  next
    case (Key_up kc fl)
    with ok obtain keycode flags where kc: "kc = Inr keycode" and fl: "fl = Inr flags"
      by (cases kc; cases fl) auto
    show ?thesis
    proof (cases "keycode_to_name keycode")
      case None
      with run Key_up kc inv show ?thesis by auto
    next
      case (Some k)
      show ?thesis
      proof (cases "k = []")
        case True
        with run Key_up kc Some inv show ?thesis by auto
      next
        case False
        note st = key_up_key_state[OF run[unfolded Key_up kc fl] Some False]
        from keycode_name_not_modifier[OF Some] inv(2) have "k \<notin> last_modifiers s" by blast
        with st inv show ?thesis by auto
      qed
    qed
  next
    case (Other_mouse_down b)
    with run mouse_callback_state(1)[of cfg s b] have "s' = s" by simp
    with inv show ?thesis by simp
  next
    case (Other_mouse_up b)
    with run mouse_callback_state(2)[of cfg s b] have "s' = s" by simp
    with inv show ?thesis by simp
  next
    case Other_event
    with run inv show ?thesis by simp
  qed
  then show "last_modifiers s' \<subseteq> pressed_keys s'" and "last_modifiers s' \<subseteq> modifier_names"
    and "K \<subseteq> pressed_keys s' \<Longrightarrow> \<not> K \<subseteq> pressed_keys s \<Longrightarrow> K = convert_keys_to_macos (hk_keys d)
           \<Longrightarrow> completes_combo_macos d s ev"
    by simp_all
qed

lemma run_callbacks_pressed_superset:
  assumes run: "run_callbacks cfg evs s = (s', out)"
    and ok: "list_all accessors_return evs"
    and inv: "last_modifiers s \<subseteq> pressed_keys s" "last_modifiers s \<subseteq> modifier_names"
    and sup: "convert_keys_to_macos (hk_keys d) \<subseteq> pressed_keys s'"
      "\<not> convert_keys_to_macos (hk_keys d) \<subseteq> pressed_keys s"
  shows "combo_completed_in_macos cfg d evs s"
  using assms
proof (induction evs arbitrary: s s' out)
  case Nil
  then show ?case by simp
next
  case (Cons ev evs)
  obtain s1 out1 where h: "event_callback cfg s ev = (s1, out1)" by (cases "event_callback cfg s ev")
  obtain s2 out2 where r: "run_callbacks cfg evs s1 = (s2, out2)" by (cases "run_callbacks cfg evs s1")
  from Cons.prems(1) h r have eq: "s' = s2" by simp
  from Cons.prems(2) have ok1: "accessors_return ev" and ok2: "list_all accessors_return evs"
    by simp_all
  note st = event_callback_pressed_mono[OF h ok1 Cons.prems(3,4)]
  show ?case
  proof (cases "convert_keys_to_macos (hk_keys d) \<subseteq> pressed_keys s1")
    case True
    from st(3)[OF True Cons.prems(6) refl] show ?thesis by simp
  next
    case False
    from Cons.IH[OF r ok2 st(1,2) _ False] Cons.prems(5) eq h show ?thesis by simp
  qed
qed

section \<open>Claim C2: subset match, one activation\<close>

text \<open>
  Claim C2. Let \<open>d\<close> be an enabled keyboard entry with id \<open>hid\<close>; ids are unique (they are
  dict keys) and \<open>hid\<close> is not the key that a configured snippet occupies in the active map.
  pynput listener: (1) from a state where \<open>hid\<close> is not active and the keys of \<open>d\<close> are not
  all pressed, any event sequence without a release of a key of \<open>d\<close> after which the pressed
  set is a superset of the keys of \<open>d\<close> (extra keys allowed) has emitted exactly one signal
  for \<open>hid\<close>, "press" in hold mode and "toggle" otherwise, and \<open>hid\<close> is active; (2) a key-down
  at which the keys of \<open>d\<close> are a subset of the tested set, with \<open>hid\<close> not active, inserts
  \<open>hid\<close> and emits that one signal; (3) a key-down while \<open>hid\<close> is active emits nothing for
  \<open>hid\<close> and leaves it active.
  macOS listener: the same three statements, (4), (5), (6), with the keys of \<open>d\<close> converted to
  macOS names; in (4) the sequence starts in a state whose last modifiers are modifier names
  held in the pressed set (as in every state that the listener reaches) and the accessor calls
  of every event return; in (5) the tested set is the one passed to \<open>check_hotkeys\<close>.
\<close>

theorem subset_match_activates_once:
  assumes dist: "distinct (map fst (keyboard_hotkeys cfg))"
    and mem: "(hid, d) \<in> set (keyboard_hotkeys cfg)"
    and en: "hk_enabled d"
    and free: "hid \<notin> snippet_keys cfg"
  shows "(\<not> has_key (active_combos s) hid \<and> \<not> set (hk_keys d) \<subseteq> pressed_keys s
            \<and> (\<forall>ev \<in> set evs. \<not> releases_combo_key d ev)
            \<and> set (hk_keys d) \<subseteq> pressed_keys (fst (run_events cfg evs s))
          \<longrightarrow> filter (is_hotkey_signal hid) (snd (run_events cfg evs s)) = [activation_signal hid d]
              \<and> has_key (active_combos (fst (run_events cfg evs s))) hid)
       \<and> (\<not> has_key (active_combos t) hid \<and> set (hk_keys d) \<subseteq> insert k (pressed_keys t)
          \<longrightarrow> filter (is_hotkey_signal hid) (snd (on_key_press cfg t (Inr k))) = [activation_signal hid d]
              \<and> has_key (active_combos (fst (on_key_press cfg t (Inr k)))) hid)
       \<and> (has_key (active_combos t) hid
          \<longrightarrow> filter (is_hotkey_signal hid) (snd (on_key_press cfg t (Inr k))) = []
              \<and> has_key (active_combos (fst (on_key_press cfg t (Inr k)))) hid)
       \<and> (\<not> has_key (active_combos m) hid
            \<and> \<not> convert_keys_to_macos (hk_keys d) \<subseteq> pressed_keys m
            \<and> last_modifiers m \<subseteq> pressed_keys m \<and> last_modifiers m \<subseteq> modifier_names
            \<and> list_all accessors_return mevs
            \<and> \<not> combo_key_released_in_macos cfg d mevs m
            \<and> convert_keys_to_macos (hk_keys d) \<subseteq> pressed_keys (fst (run_callbacks cfg mevs m))
          \<longrightarrow> filter (is_hotkey_signal hid) (snd (run_callbacks cfg mevs m)) = [activation_signal hid d]
              \<and> has_key (active_combos (fst (run_callbacks cfg mevs m))) hid)
       \<and> (\<not> has_key (active_combos n) hid \<and> \<not> releases_combo_key_macos d n mev
            \<and> check_hotkeys_arg n mev = Some P \<and> convert_keys_to_macos (hk_keys d) \<subseteq> P
          \<longrightarrow> filter (is_hotkey_signal hid) (snd (event_callback cfg n mev)) = [activation_signal hid d]
              \<and> has_key (active_combos (fst (event_callback cfg n mev))) hid)
       \<and> (has_key (active_combos n) hid \<and> \<not> releases_combo_key_macos d n mev
          \<longrightarrow> filter (is_hotkey_signal hid) (snd (event_callback cfg n mev)) = []
              \<and> has_key (active_combos (fst (event_callback cfg n mev))) hid)"
proof -
  have p1: "filter (is_hotkey_signal hid) (snd (run_events cfg evs s)) = [activation_signal hid d]
              \<and> has_key (active_combos (fst (run_events cfg evs s))) hid"
    if a: "\<not> has_key (active_combos s) hid" "\<not> set (hk_keys d) \<subseteq> pressed_keys s"
      "\<forall>ev \<in> set evs. \<not> releases_combo_key d ev"
      "set (hk_keys d) \<subseteq> pressed_keys (fst (run_events cfg evs s))"
  proof -
    obtain s' out where r: "run_events cfg evs s = (s', out)" by (cases "run_events cfg evs s")
    from a(4) r have sup: "set (hk_keys d) \<subseteq> pressed_keys s'" by simp
    have c: "combo_completed_in cfg d evs s"
      by (rule run_events_pressed_superset[OF r sup a(2) refl])
    from run_events_hotkey[OF dist mem en free a(3) r] c a(1) r show ?thesis by simp
  qed
  obtain s1 o1 where kp: "on_key_press cfg t (Inr k) = (s1, o1)"
    by (cases "on_key_press cfg t (Inr k)")
  note pk = on_key_press_hotkey[OF dist mem kp]
  have p2: "filter (is_hotkey_signal hid) (snd (on_key_press cfg t (Inr k))) = [activation_signal hid d]
              \<and> has_key (active_combos (fst (on_key_press cfg t (Inr k)))) hid"
    if "\<not> has_key (active_combos t) hid" "set (hk_keys d) \<subseteq> insert k (pressed_keys t)"
    using that pk(2) pk(3) en kp by simp
  have p3: "filter (is_hotkey_signal hid) (snd (on_key_press cfg t (Inr k))) = []
              \<and> has_key (active_combos (fst (on_key_press cfg t (Inr k)))) hid"
    if "has_key (active_combos t) hid"
    using that pk(2) pk(3) kp by simp
  have p4: "filter (is_hotkey_signal hid) (snd (run_callbacks cfg mevs m)) = [activation_signal hid d]
              \<and> has_key (active_combos (fst (run_callbacks cfg mevs m))) hid"
    if a: "\<not> has_key (active_combos m) hid"
      "\<not> convert_keys_to_macos (hk_keys d) \<subseteq> pressed_keys m"
      "last_modifiers m \<subseteq> pressed_keys m" "last_modifiers m \<subseteq> modifier_names"
      "list_all accessors_return mevs"
      "\<not> combo_key_released_in_macos cfg d mevs m"
      "convert_keys_to_macos (hk_keys d) \<subseteq> pressed_keys (fst (run_callbacks cfg mevs m))"
  proof -
    obtain m' out where r: "run_callbacks cfg mevs m = (m', out)" by (cases "run_callbacks cfg mevs m")
    from a(7) r have sup: "convert_keys_to_macos (hk_keys d) \<subseteq> pressed_keys m'" by simp
    have c: "combo_completed_in_macos cfg d mevs m"
      by (rule run_callbacks_pressed_superset[OF r a(5) a(3) a(4) sup a(2)])
    from run_callbacks_hotkey[OF dist mem en free a(6) r] c a(1) r show ?thesis by simp
  qed
  obtain m1 o2 where ec: "event_callback cfg n mev = (m1, o2)"
    by (cases "event_callback cfg n mev")
  have p5: "filter (is_hotkey_signal hid) (snd (event_callback cfg n mev)) = [activation_signal hid d]
              \<and> has_key (active_combos (fst (event_callback cfg n mev))) hid"
    if a: "\<not> has_key (active_combos n) hid" "\<not> releases_combo_key_macos d n mev"
      "check_hotkeys_arg n mev = Some P" "convert_keys_to_macos (hk_keys d) \<subseteq> P"
  proof -
    from a(3,4) have "completes_combo_macos d n mev" by (simp add: completes_combo_macos_def)
    with event_callback_hotkey[OF dist mem free a(2) ec] a(1) en ec show ?thesis by simp
  qed
  have p6: "filter (is_hotkey_signal hid) (snd (event_callback cfg n mev)) = []
              \<and> has_key (active_combos (fst (event_callback cfg n mev))) hid"
    if a: "has_key (active_combos n) hid" "\<not> releases_combo_key_macos d n mev"
    using event_callback_hotkey[OF dist mem free a(2) ec] a(1) ec by simp
  from p1 p2 p3 p4 p5 p6 show ?thesis by blast
qed

theorem subset_match_activates_once_witness:
  "filter (is_hotkey_signal ''talk'') (snd (run_events example_settings press_talk_events initial_state))
     = [hotkey_pressed ''talk'' ''press'']
   \<and> has_key (active_combos (fst (run_events example_settings press_talk_events initial_state))) ''talk''
   \<and> filter (is_hotkey_signal ''talk'')
        (snd (on_key_press example_settings
               \<lparr>pressed_keys = {''ctrl'', ''a'', ''shift''}, active_combos = []\<rparr> (Inr ''x'')))
     = [hotkey_pressed ''talk'' ''press'']
   \<and> filter (is_hotkey_signal ''talk'')
        (snd (on_key_press example_settings
               \<lparr>pressed_keys = {''ctrl'', ''a'', ''shift'', ''x''},
                active_combos = [(''talk'', True)]\<rparr> (Inr ''x'')))
     = []
   \<and> filter (is_hotkey_signal ''talk'')
        (snd (run_callbacks example_settings press_talk_events_macos initial_macos_state))
     = [hotkey_pressed ''talk'' ''press'']
   \<and> has_key (active_combos (fst (run_callbacks example_settings press_talk_events_macos
                                     initial_macos_state))) ''talk''
   \<and> filter (is_hotkey_signal ''talk'')
        (snd (event_callback example_settings
               \<lparr>pressed_keys = {''control'', ''a'', ''shift''}, active_combos = [],
                last_modifiers = {''control'', ''shift''}\<rparr> (Key_down (Inr 7) (Inr 393216))))
     = [hotkey_pressed ''talk'' ''press'']
   \<and> filter (is_hotkey_signal ''talk'')
        (snd (event_callback example_settings
               \<lparr>pressed_keys = {''control'', ''a'', ''shift'', ''x''},
                active_combos = [(''talk'', True)],
                last_modifiers = {''control'', ''shift''}\<rparr> (Key_down (Inr 7) (Inr 393216))))
     = []"
proof -
  let ?t = "\<lparr>pressed_keys = {''ctrl'', ''a'', ''shift''}, active_combos = []\<rparr>"
  let ?t' = "\<lparr>pressed_keys = {''ctrl'', ''a'', ''shift'', ''x''}, active_combos = [(''talk'', True)]\<rparr>"
  let ?n = "\<lparr>pressed_keys = {''control'', ''a'', ''shift''}, active_combos = [],
             last_modifiers = {''control'', ''shift''}\<rparr>"
  let ?n' = "\<lparr>pressed_keys = {''control'', ''a'', ''shift'', ''x''},
              active_combos = [(''talk'', True)], last_modifiers = {''control'', ''shift''}\<rparr>"
  let ?ev = "Key_down (Inr 7) (Inr 393216)"
  have d: "distinct (map fst (keyboard_hotkeys example_settings))"
    and m: "(''talk'', talk_config) \<in> set (keyboard_hotkeys example_settings)"
    and e: "hk_enabled talk_config"
    by (simp_all add: example_settings_def talk_config_def)
  have f: "''talk'' \<notin> snippet_keys example_settings" by code_simp
  have h1: "\<not> has_key (active_combos initial_state) ''talk''"
    "\<not> set (hk_keys talk_config) \<subseteq> pressed_keys initial_state"
    "\<forall>ev \<in> set press_talk_events. \<not> releases_combo_key talk_config ev"
    "set (hk_keys talk_config) \<subseteq> pressed_keys (fst (run_events example_settings press_talk_events initial_state))"
    by code_simp+
  have h2: "\<not> has_key (active_combos ?t) ''talk''"
    "set (hk_keys talk_config) \<subseteq> insert ''x'' (pressed_keys ?t)"
    by code_simp+
  have h3: "has_key (active_combos ?t') ''talk''" by code_simp
  have h4: "\<not> has_key (active_combos initial_macos_state) ''talk''"
    "\<not> convert_keys_to_macos (hk_keys talk_config) \<subseteq> pressed_keys initial_macos_state"
    "last_modifiers initial_macos_state \<subseteq> pressed_keys initial_macos_state"
    "last_modifiers initial_macos_state \<subseteq> modifier_names"
    "list_all accessors_return press_talk_events_macos"
    "\<not> combo_key_released_in_macos example_settings talk_config press_talk_events_macos initial_macos_state"
    "convert_keys_to_macos (hk_keys talk_config)
       \<subseteq> pressed_keys (fst (run_callbacks example_settings press_talk_events_macos initial_macos_state))"
    by code_simp+
  have h5: "\<not> has_key (active_combos ?n) ''talk''"
    "\<not> releases_combo_key_macos talk_config ?n ?ev"
    "check_hotkeys_arg ?n ?ev = Some {''x'', ''control'', ''a'', ''shift''}"
    "convert_keys_to_macos (hk_keys talk_config) \<subseteq> {''x'', ''control'', ''a'', ''shift''}"
    by code_simp+
  have h6: "has_key (active_combos ?n') ''talk''"
    "\<not> releases_combo_key_macos talk_config ?n' ?ev"
    by code_simp+
  have a: "activation_signal ''talk'' talk_config = hotkey_pressed ''talk'' ''press''"
    by (simp add: activation_signal_def talk_config_def)
  from subset_match_activates_once[OF d m e f,
      where s = initial_state and evs = press_talk_events and t = ?t and k = "''x''"
        and m = initial_macos_state and mevs = press_talk_events_macos
        and n = ?n and mev = ?ev and P = "{''x'', ''control'', ''a'', ''shift''}"]
    h1 h2 h4 h5 a
  have first: "filter (is_hotkey_signal ''talk'') (snd (run_events example_settings press_talk_events initial_state))
       = [hotkey_pressed ''talk'' ''press'']
     \<and> has_key (active_combos (fst (run_events example_settings press_talk_events initial_state))) ''talk''
     \<and> filter (is_hotkey_signal ''talk'') (snd (on_key_press example_settings ?t (Inr ''x'')))
       = [hotkey_pressed ''talk'' ''press'']
     \<and> filter (is_hotkey_signal ''talk'')
          (snd (run_callbacks example_settings press_talk_events_macos initial_macos_state))
       = [hotkey_pressed ''talk'' ''press'']
     \<and> has_key (active_combos (fst (run_callbacks example_settings press_talk_events_macos
                                     initial_macos_state))) ''talk''
     \<and> filter (is_hotkey_signal ''talk'') (snd (event_callback example_settings ?n ?ev))
       = [hotkey_pressed ''talk'' ''press'']"
    by simp
  from subset_match_activates_once[OF d m e f, where t = ?t' and k = "''x''" and n = ?n' and mev = ?ev]
    h3 h6
  have second: "filter (is_hotkey_signal ''talk'') (snd (on_key_press example_settings ?t' (Inr ''x''))) = []
     \<and> filter (is_hotkey_signal ''talk'') (snd (event_callback example_settings ?n' ?ev)) = []"
    by simp
  from first second show ?thesis by simp
qed

section \<open>Snippets\<close>




subsection \<open>macOS\<close>










section \<open>Releases\<close>

lemma run_events_append:
  "run_events cfg (xs @ ys) s =
     (case run_events cfg xs s of (s1, out1) \<Rightarrow>
        (case run_events cfg ys s1 of (s2, out2) \<Rightarrow> (s2, out1 @ out2)))"
  by (induction xs arbitrary: s) (auto split: prod.splits)

lemma run_callbacks_append:
  "run_callbacks cfg (xs @ ys) s =
     (case run_callbacks cfg xs s of (s1, out1) \<Rightarrow>
        (case run_callbacks cfg ys s1 of (s2, out2) \<Rightarrow> (s2, out1 @ out2)))"
  by (induction xs arbitrary: s) (auto split: prod.splits)

lemma release_excludes_complete:
  assumes rel: "releases_combo_key_macos d m ev"
    and inv: "last_modifiers m \<subseteq> modifier_names"
  shows "\<not> completes_combo_macos d m ev"
proof (cases ev)
  case (Flags_changed fl)
  show ?thesis
  proof (cases fl)
    case (Inl e)
    with Flags_changed show ?thesis by (simp add: completes_combo_macos_def)
  next
    case (Inr flags)
    from rel Flags_changed Inr obtain x where x: "x \<in> last_modifiers m"
      "x \<notin> get_modifier_names flags" "x \<in> convert_keys_to_macos (hk_keys d)"
      by (auto simp: releases_combo_key_macos_def)
    from x(1) inv have "x \<in> modifier_names" by blast
    with x(2) have "x \<notin> (pressed_keys m - modifier_names) \<union> get_modifier_names flags" by simp
    with x(3) have "\<not> convert_keys_to_macos (hk_keys d)
                     \<subseteq> (pressed_keys m - modifier_names) \<union> get_modifier_names flags" by blast
    with Flags_changed Inr show ?thesis by (simp add: completes_combo_macos_def)
  qed
next
  case (Key_down kc fl)
  with rel show ?thesis by (simp add: releases_combo_key_macos_def)
next
  case (Key_up kc fl)
  then show ?thesis by (simp add: completes_combo_macos_def)
next
  case (Other_mouse_down b)
  with rel show ?thesis by (simp add: releases_combo_key_macos_def)
next
  case (Other_mouse_up b)
  with rel show ?thesis by (simp add: releases_combo_key_macos_def)
next
  case Other_event
  with rel show ?thesis by (simp add: releases_combo_key_macos_def)
qed

lemma event_callback_release:
  assumes dist: "distinct (map fst (keyboard_hotkeys cfg))"
    and mem: "(hid, d) \<in> set (keyboard_hotkeys cfg)"
    and rel: "releases_combo_key_macos d m ev"
    and inv: "last_modifiers m \<subseteq> modifier_names"
    and run: "event_callback cfg m ev = (m', out)"
  shows "filter (is_hotkey_signal hid) out =
           (if has_key (active_combos m) hid \<and> hk_mode d = ''hold''
            then [hotkey_pressed hid ''release''] else [])"
    and "hid \<notin> snippet_keys cfg \<Longrightarrow> \<not> has_key (active_combos m') hid"
proof -
  let ?K = "convert_keys_to_macos (hk_keys d)"
  have "filter (is_hotkey_signal hid) out =
           (if has_key (active_combos m) hid \<and> hk_mode d = ''hold''
            then [hotkey_pressed hid ''release''] else [])
        \<and> (hid \<notin> snippet_keys cfg \<longrightarrow> \<not> has_key (active_combos m') hid)"
  proof (cases ev)
    case (Flags_changed fl)
    with rel obtain flags where fl: "fl = Inr flags"
      by (cases fl) (auto simp: releases_combo_key_macos_def)
    let ?cur = "get_modifier_names flags"
    let ?R = "last_modifiers m - ?cur"
    from rel Flags_changed fl have RK: "?R \<inter> ?K \<noteq> {}"
      by (simp add: releases_combo_key_macos_def)
    then have Rne: "?R \<noteq> {}" by blast
    from run Flags_changed fl
    have run': "event_callback cfg m (Flags_changed (Inr flags)) = (m', out)" by simp
    obtain s1 out1 s3 out2 where
      r1: "(if ?R \<noteq> {} then check_releases cfg (m\<lparr>last_modifiers := ?cur\<rparr>) ?R
            else (m\<lparr>last_modifiers := ?cur\<rparr>, [])) = (s1, out1)"
      and r2: "(if ?cur - last_modifiers m \<noteq> {}
          then check_hotkeys cfg
                 (s1\<lparr>pressed_keys := (pressed_keys s1 - modifier_names) \<union> ?cur\<rparr>)
                 ((pressed_keys s1 - modifier_names) \<union> ?cur)
          else (s1\<lparr>pressed_keys := (pressed_keys s1 - modifier_names) \<union> ?cur\<rparr>, []))
         = (s3, out2)"
      and eq: "m' = s3" "out = out1 @ out2"
      using event_callback_flags_changed[OF run'] by blast
    from r1 Rne have c: "check_releases cfg (m\<lparr>last_modifiers := ?cur\<rparr>) ?R = (s1, out1)" by simp
    have o1: "filter (is_hotkey_signal hid) out1 =
           (if has_key (active_combos m) hid \<and> hk_mode d = ''hold''
            then [hotkey_pressed hid ''release''] else [])"
      using check_releases_hotkey(3)[OF dist mem c] RK by simp
    have a1: "\<not> has_key (active_combos s1) hid"
      using check_releases_hotkey(4)[OF dist mem c] RK by blast
    have p1: "pressed_keys s1 = pressed_keys m" using check_releases_key_state(1)[OF c] by simp
    from release_excludes_complete[OF rel inv] Flags_changed fl
    have nc: "?cur - last_modifiers m \<noteq> {} \<Longrightarrow> \<not> ?K \<subseteq> (pressed_keys m - modifier_names) \<union> ?cur"
      by (simp add: completes_combo_macos_def)
    let ?m2 = "s1\<lparr>pressed_keys := (pressed_keys s1 - modifier_names) \<union> ?cur\<rparr>"
    have s3: "filter (is_hotkey_signal hid) out2 = []
              \<and> (hid \<notin> snippet_keys cfg \<longrightarrow> \<not> has_key (active_combos s3) hid)"
    proof (cases "?cur - last_modifiers m \<noteq> {}")
      case True
      with r2 p1 have ch: "check_hotkeys cfg ?m2 ((pressed_keys m - modifier_names) \<union> ?cur) = (s3, out2)"
        by simp
      show ?thesis
        using check_hotkeys_hotkey(3)[OF dist mem ch] check_hotkeys_hotkey(5)[OF dist mem ch]
          nc[OF True] a1 by simp
    next
      case False
      with r2 have "s3 = ?m2" "out2 = []" by simp_all
      with a1 show ?thesis by simp
    qed
    with o1 eq show ?thesis by simp
  next
    case (Key_up kc fl)
    from rel Key_up obtain keycode where kc: "kc = Inr keycode"
      by (cases kc) (auto simp: releases_combo_key_macos_def)
    from rel Key_up kc obtain k where k: "keycode_to_name keycode = Some k"
      by (cases "keycode_to_name keycode") (auto simp: releases_combo_key_macos_def)
    from rel Key_up kc k have ne: "k \<noteq> []"
      by (auto simp: releases_combo_key_macos_def split: if_splits)
    from rel Key_up kc k ne obtain flags where fl: "fl = Inr flags"
      by (cases fl) (auto simp: releases_combo_key_macos_def)
    from rel Key_up kc k ne fl have RK: "{k} \<inter> ?K \<noteq> {}"
      by (simp add: releases_combo_key_macos_def)
    obtain s1 o1 where c: "check_releases cfg m {k} = (s1, o1)"
      by (cases "check_releases cfg m {k}")
    with Key_up kc k ne fl run
    have eq: "m' = s1\<lparr>pressed_keys := pressed_keys s1 - {k}\<rparr>" "out = o1" by auto
    show ?thesis
      using check_releases_hotkey(3)[OF dist mem c] check_releases_hotkey(4)[OF dist mem c]
        RK eq by auto
  next
    case (Key_down kc fl)
    with rel show ?thesis by (simp add: releases_combo_key_macos_def)
  next
    case (Other_mouse_down b)
    with rel show ?thesis by (simp add: releases_combo_key_macos_def)
  next
    case (Other_mouse_up b)
    with rel show ?thesis by (simp add: releases_combo_key_macos_def)
  next
    case Other_event
    with rel show ?thesis by (simp add: releases_combo_key_macos_def)
  qed
  then show "filter (is_hotkey_signal hid) out =
           (if has_key (active_combos m) hid \<and> hk_mode d = ''hold''
            then [hotkey_pressed hid ''release''] else [])"
    and "hid \<notin> snippet_keys cfg \<Longrightarrow> \<not> has_key (active_combos m') hid"
    by simp_all
qed

subsection \<open>Entries that are not in hold mode never emit "release"\<close>

lemma release_not_in:
  assumes "filter (is_hotkey_signal hid) out = [] \<or> filter (is_hotkey_signal hid) out = [activation_signal hid d]"
  shows "hotkey_pressed hid ''release'' \<notin> set out"
proof
  assume "hotkey_pressed hid ''release'' \<in> set out"
  then have m: "hotkey_pressed hid ''release'' \<in> set (filter (is_hotkey_signal hid) out)"
    by (simp add: is_hotkey_signal_def)
  from assms show False
  proof
    assume e: "filter (is_hotkey_signal hid) out = []"
    from m show False unfolding e by simp
  next
    assume e: "filter (is_hotkey_signal hid) out = [activation_signal hid d]"
    from m show False unfolding e by (simp add: activation_signal_def split: if_splits)
  qed
qed

lemma handle_event_toggle_no_release:
  assumes dist: "distinct (map fst (keyboard_hotkeys cfg))"
    and mem: "(hid, d) \<in> set (keyboard_hotkeys cfg)"
    and tg: "hk_mode d \<noteq> ''hold''"
  shows "hotkey_pressed hid ''release'' \<notin> set (snd (handle_event cfg s ev))"
proof -
  obtain s' out where run: "handle_event cfg s ev = (s', out)" by (cases "handle_event cfg s ev")
  have "filter (is_hotkey_signal hid) out = [] \<or> filter (is_hotkey_signal hid) out = [activation_signal hid d]"
  proof (cases ev)
    case (Key_press nk)
    show ?thesis
    proof (cases nk)
      case (Inl e)
      with Key_press run show ?thesis by (auto simp: on_key_error_state is_hotkey_signal_def)
    next
      case (Inr k)
      with Key_press run have r: "on_key_press cfg s (Inr k) = (s', out)" by simp
      show ?thesis using on_key_press_hotkey(2)[OF dist mem r] by simp
    qed
  next
    case (Key_release nk)
    show ?thesis
    proof (cases nk)
      case (Inl e)
      with Key_release run show ?thesis by (auto simp: on_key_error_state is_hotkey_signal_def)
    next
      case (Inr k)
      with Key_release run have r: "on_key_release cfg s (Inr k) = (s', out)" by simp
      show ?thesis using on_key_release_hotkey(2)[OF dist mem r] tg by simp
    qed
  next
    case (Mouse_click b p)
    with run on_mouse_click_no_hotkey_signal[of hid cfg s b p] show ?thesis by simp
  qed
  from release_not_in[OF this] run show ?thesis by simp
qed

lemma run_events_toggle_no_release:
  assumes dist: "distinct (map fst (keyboard_hotkeys cfg))"
    and mem: "(hid, d) \<in> set (keyboard_hotkeys cfg)"
    and tg: "hk_mode d \<noteq> ''hold''"
  shows "hotkey_pressed hid ''release'' \<notin> set (snd (run_events cfg evs s))"
proof (induction evs arbitrary: s)
  case Nil
  then show ?case by simp
next
  case (Cons ev evs)
  obtain s1 out1 where h: "handle_event cfg s ev = (s1, out1)" by (cases "handle_event cfg s ev")
  obtain s2 out2 where r: "run_events cfg evs s1 = (s2, out2)" by (cases "run_events cfg evs s1")
  from handle_event_toggle_no_release[OF dist mem tg, of s ev] h
  have "hotkey_pressed hid ''release'' \<notin> set out1" by simp
  moreover from Cons.IH[of s1] r have "hotkey_pressed hid ''release'' \<notin> set out2" by simp
  ultimately show ?case using h r by simp
qed

lemma check_hotkeys_toggle_no_release:
  assumes dist: "distinct (map fst (keyboard_hotkeys cfg))"
    and mem: "(hid, d) \<in> set (keyboard_hotkeys cfg)"
    and run: "check_hotkeys cfg s P = (s', out)"
  shows "hotkey_pressed hid ''release'' \<notin> set out"
  by (rule release_not_in[of hid out d]) (use check_hotkeys_hotkey(3)[OF dist mem run] in simp)

lemma check_releases_toggle_no_release:
  assumes dist: "distinct (map fst (keyboard_hotkeys cfg))"
    and mem: "(hid, d) \<in> set (keyboard_hotkeys cfg)"
    and tg: "hk_mode d \<noteq> ''hold''"
    and run: "check_releases cfg s R = (s', out)"
  shows "hotkey_pressed hid ''release'' \<notin> set out"
  by (rule release_not_in[of hid out d]) (use check_releases_hotkey(3)[OF dist mem run] tg in simp)

lemma event_callback_toggle_no_release:
  assumes dist: "distinct (map fst (keyboard_hotkeys cfg))"
    and mem: "(hid, d) \<in> set (keyboard_hotkeys cfg)"
    and tg: "hk_mode d \<noteq> ''hold''"
  shows "hotkey_pressed hid ''release'' \<notin> set (snd (event_callback cfg m ev))"
proof -
  obtain m' out where run: "event_callback cfg m ev = (m', out)" by (cases "event_callback cfg m ev")
  have "hotkey_pressed hid ''release'' \<notin> set out"
  proof (cases ev)
    case (Flags_changed fl)
    show ?thesis
    proof (cases fl)
      case (Inl e)
      with Flags_changed run show ?thesis by simp
    next
      case (Inr flags)
      let ?cur = "get_modifier_names flags"
      let ?R = "last_modifiers m - ?cur"
      from run Flags_changed Inr
      have run': "event_callback cfg m (Flags_changed (Inr flags)) = (m', out)" by simp
      obtain s1 out1 s3 out2 where
        r1: "(if ?R \<noteq> {} then check_releases cfg (m\<lparr>last_modifiers := ?cur\<rparr>) ?R
              else (m\<lparr>last_modifiers := ?cur\<rparr>, [])) = (s1, out1)"
        and r2: "(if ?cur - last_modifiers m \<noteq> {}
            then check_hotkeys cfg
                   (s1\<lparr>pressed_keys := (pressed_keys s1 - modifier_names) \<union> ?cur\<rparr>)
                   ((pressed_keys s1 - modifier_names) \<union> ?cur)
            else (s1\<lparr>pressed_keys := (pressed_keys s1 - modifier_names) \<union> ?cur\<rparr>, []))
           = (s3, out2)"
        and eq: "m' = s3" "out = out1 @ out2"
        using event_callback_flags_changed[OF run'] by blast
      have o1: "hotkey_pressed hid ''release'' \<notin> set out1"
      proof (cases "?R \<noteq> {}")
        case True
        with r1 have c: "check_releases cfg (m\<lparr>last_modifiers := ?cur\<rparr>) ?R = (s1, out1)" by simp
        show ?thesis by (rule check_releases_toggle_no_release[OF dist mem tg c])
      next
        case False
        with r1 have "out1 = []" by simp
        then show ?thesis by simp
      qed
      have o2: "hotkey_pressed hid ''release'' \<notin> set out2"
      proof (cases "?cur - last_modifiers m \<noteq> {}")
        case True
        with r2 have c: "check_hotkeys cfg
                   (s1\<lparr>pressed_keys := (pressed_keys s1 - modifier_names) \<union> ?cur\<rparr>)
                   ((pressed_keys s1 - modifier_names) \<union> ?cur) = (s3, out2)" by simp
        show ?thesis by (rule check_hotkeys_toggle_no_release[OF dist mem c])
      next
        case False
        with r2 have "out2 = []" by simp
        then show ?thesis by simp
      qed
      from o1 o2 eq show ?thesis by simp
    qed
  next
    case (Key_down kc fl)
    show ?thesis
    proof (cases "\<exists>keycode k flags. kc = Inr keycode \<and> keycode_to_name keycode = Some k \<and> k \<noteq> []
                  \<and> fl = Inr flags")
      case True
      then obtain keycode k flags where v: "kc = Inr keycode" "keycode_to_name keycode = Some k"
        "k \<noteq> []" "fl = Inr flags" by blast
      from Key_down v run
      have c: "check_hotkeys cfg (m\<lparr>pressed_keys := insert k (pressed_keys m)\<rparr>)
                 (insert k (pressed_keys m) \<union> get_modifier_names flags) = (m', out)" by simp
      show ?thesis by (rule check_hotkeys_toggle_no_release[OF dist mem c])
    next
      case False
      have "check_hotkeys_arg m ev = None"
      proof (cases kc)
        case (Inl e)
        with Key_down show ?thesis by simp
      next
        case kcr: (Inr keycode)
        show ?thesis
        proof (cases "keycode_to_name keycode")
          case None
          with Key_down kcr show ?thesis by simp
        next
          case (Some k)
          show ?thesis
          proof (cases "k = []")
            case True
            with Key_down kcr Some show ?thesis by simp
          next
            case ne: False
            with False kcr Some obtain e where "fl = Inl e" by (cases fl) auto
            with Key_down kcr Some ne show ?thesis by simp
          qed
        qed
      qed
      with Key_down run have "out = []"
        by (auto split: sum.splits option.splits if_splits)
      then show ?thesis by simp
    qed
  next
    case (Key_up kc fl)
    show ?thesis
    proof (cases "\<exists>keycode k flags. kc = Inr keycode \<and> keycode_to_name keycode = Some k \<and> k \<noteq> []
                  \<and> fl = Inr flags")
      case True
      then obtain keycode k flags where v: "kc = Inr keycode" "keycode_to_name keycode = Some k"
        "k \<noteq> []" "fl = Inr flags" by blast
      obtain s1 o1 where c: "check_releases cfg m {k} = (s1, o1)"
        by (cases "check_releases cfg m {k}")
      with Key_up v run have "out = o1" by auto
      with check_releases_toggle_no_release[OF dist mem tg c] show ?thesis by simp
    next
      case False
      with Key_up run have "out = []"
        by (auto split: sum.splits option.splits if_splits)
      then show ?thesis by simp
    qed
  next
    case (Other_mouse_down b)
    have "filter (is_hotkey_signal hid) out = []"
      using run Other_mouse_down for_each_mouse_macos_no_hotkey_signal(1)[of "mouse_hotkeys cfg" m m' out hid]
      by (cases b) (auto split: if_splits)
    then show ?thesis by (intro release_not_in[of hid out d]) simp
  next
    case (Other_mouse_up b)
    have "filter (is_hotkey_signal hid) out = []"
      using run Other_mouse_up for_each_mouse_macos_no_hotkey_signal(2)[of "mouse_hotkeys cfg" m m' out hid]
      by (cases b) (auto split: if_splits)
    then show ?thesis by (intro release_not_in[of hid out d]) simp
  next
    case Other_event
    with run show ?thesis by simp
  qed
  with run show ?thesis by simp
qed

lemma run_callbacks_toggle_no_release:
  assumes dist: "distinct (map fst (keyboard_hotkeys cfg))"
    and mem: "(hid, d) \<in> set (keyboard_hotkeys cfg)"
    and tg: "hk_mode d \<noteq> ''hold''"
  shows "hotkey_pressed hid ''release'' \<notin> set (snd (run_callbacks cfg evs m))"
proof (induction evs arbitrary: m)
  case Nil
  then show ?case by simp
next
  case (Cons ev evs)
  obtain m1 out1 where h: "event_callback cfg m ev = (m1, out1)" by (cases "event_callback cfg m ev")
  obtain m2 out2 where r: "run_callbacks cfg evs m1 = (m2, out2)" by (cases "run_callbacks cfg evs m1")
  from event_callback_toggle_no_release[OF dist mem tg, of m ev] h
  have "hotkey_pressed hid ''release'' \<notin> set out1" by simp
  moreover from Cons.IH[of m1] r have "hotkey_pressed hid ''release'' \<notin> set out2" by simp
  ultimately show ?case using h r by simp
qed

lemma run_callbacks_invariant:
  assumes run: "run_callbacks cfg evs m = (m', out)"
    and ok: "list_all accessors_return evs"
    and inv: "last_modifiers m \<subseteq> pressed_keys m" "last_modifiers m \<subseteq> modifier_names"
  shows "last_modifiers m' \<subseteq> pressed_keys m' \<and> last_modifiers m' \<subseteq> modifier_names"
  using assms
proof (induction evs arbitrary: m m' out)
  case Nil
  then show ?case by simp
next
  case (Cons ev evs)
  obtain m1 out1 where h: "event_callback cfg m ev = (m1, out1)" by (cases "event_callback cfg m ev")
  obtain m2 out2 where r: "run_callbacks cfg evs m1 = (m2, out2)" by (cases "run_callbacks cfg evs m1")
  from Cons.prems(1) h r have eq: "m' = m2" by simp
  from Cons.prems(2) have ok1: "accessors_return ev" and ok2: "list_all accessors_return evs"
    by simp_all
  note st = event_callback_pressed_mono(1,2)[OF h ok1 Cons.prems(3,4)]
  from Cons.IH[OF r ok2 st] eq show ?case by simp
qed

section \<open>Claim C4: toggle mode\<close>

text \<open>
  Claim C4. Let \<open>d\<close> be a keyboard entry with id \<open>hid\<close> (a unique dict key) whose mode is not
  "hold", so that the listeners treat it as toggle. pynput listener: (1) the release of a key
  of \<open>d\<close> emits nothing for \<open>hid\<close> and leaves \<open>hid\<close> out of the active map; (2) no run of the
  listener ever emits "release" for \<open>hid\<close>; (3) a press-and-release cycle (key-downs without a
  release of a key of \<open>d\<close> that make the pressed set a superset of its keys, then the release
  of one of its keys) emits for \<open>hid\<close> exactly one signal, "toggle", and ends with \<open>hid\<close> not
  active. macOS listener: (4), (5), (6) the same, a release being a key-up or a change of the
  modifier flags that drops a key of \<open>d\<close>. As in claim C2, the cycles assume that \<open>d\<close> is
  enabled and that \<open>hid\<close> is not the active-map key of a configured snippet, and the macOS
  statements a state whose last modifiers are modifier names.
\<close>

theorem toggle_once_never_release:
  assumes dist: "distinct (map fst (keyboard_hotkeys cfg))"
    and mem: "(hid, d) \<in> set (keyboard_hotkeys cfg)"
    and tg: "hk_mode d \<noteq> ''hold''"
  shows "(k \<in> set (hk_keys d)
          \<longrightarrow> filter (is_hotkey_signal hid) (snd (on_key_release cfg t (Inr k))) = []
              \<and> \<not> has_key (active_combos (fst (on_key_release cfg t (Inr k)))) hid)
       \<and> hotkey_pressed hid ''release'' \<notin> set (snd (run_events cfg es u))
       \<and> (hk_enabled d \<and> hid \<notin> snippet_keys cfg
            \<and> \<not> has_key (active_combos s) hid \<and> \<not> set (hk_keys d) \<subseteq> pressed_keys s
            \<and> (\<forall>ev \<in> set evs. \<not> releases_combo_key d ev)
            \<and> set (hk_keys d) \<subseteq> pressed_keys (fst (run_events cfg evs s))
            \<and> k \<in> set (hk_keys d)
          \<longrightarrow> filter (is_hotkey_signal hid) (snd (run_events cfg (evs @ [Key_release (Inr k)]) s))
                = [hotkey_pressed hid ''toggle'']
              \<and> \<not> has_key (active_combos (fst (run_events cfg (evs @ [Key_release (Inr k)]) s))) hid)
       \<and> (releases_combo_key_macos d n mev \<and> last_modifiers n \<subseteq> modifier_names
            \<and> hid \<notin> snippet_keys cfg
          \<longrightarrow> filter (is_hotkey_signal hid) (snd (event_callback cfg n mev)) = []
              \<and> \<not> has_key (active_combos (fst (event_callback cfg n mev))) hid)
       \<and> hotkey_pressed hid ''release'' \<notin> set (snd (run_callbacks cfg mes v))
       \<and> (hk_enabled d \<and> hid \<notin> snippet_keys cfg
            \<and> \<not> has_key (active_combos m) hid
            \<and> \<not> convert_keys_to_macos (hk_keys d) \<subseteq> pressed_keys m
            \<and> last_modifiers m \<subseteq> pressed_keys m \<and> last_modifiers m \<subseteq> modifier_names
            \<and> list_all accessors_return mevs
            \<and> \<not> combo_key_released_in_macos cfg d mevs m
            \<and> convert_keys_to_macos (hk_keys d) \<subseteq> pressed_keys (fst (run_callbacks cfg mevs m))
            \<and> releases_combo_key_macos d (fst (run_callbacks cfg mevs m)) mev
          \<longrightarrow> filter (is_hotkey_signal hid) (snd (run_callbacks cfg (mevs @ [mev]) m))
                = [hotkey_pressed hid ''toggle'']
              \<and> \<not> has_key (active_combos (fst (run_callbacks cfg (mevs @ [mev]) m))) hid)"
proof -
  have act: "activation_signal hid d = hotkey_pressed hid ''toggle''"
    using tg by (simp add: activation_signal_def)
  have skip: "\<not> release_skipped d P x" for P x using tg by (simp add: release_skipped_def)
  have rel: "filter (is_hotkey_signal hid) (snd (on_key_release cfg a (Inr k))) = []
              \<and> \<not> has_key (active_combos (fst (on_key_release cfg a (Inr k)))) hid"
    if "k \<in> set (hk_keys d)" for a
  proof -
    obtain a' o' where r: "on_key_release cfg a (Inr k) = (a', o')"
      by (cases "on_key_release cfg a (Inr k)")
    show ?thesis
      using on_key_release_hotkey(2)[OF dist mem r] on_key_release_hotkey(3)[OF dist mem r]
        that tg skip r by auto
  qed
  have c3: "filter (is_hotkey_signal hid) (snd (run_events cfg (evs @ [Key_release (Inr k)]) s))
                = [hotkey_pressed hid ''toggle'']
              \<and> \<not> has_key (active_combos (fst (run_events cfg (evs @ [Key_release (Inr k)]) s))) hid"
    if a: "hk_enabled d" "hid \<notin> snippet_keys cfg"
      "\<not> has_key (active_combos s) hid" "\<not> set (hk_keys d) \<subseteq> pressed_keys s"
      "\<forall>ev \<in> set evs. \<not> releases_combo_key d ev"
      "set (hk_keys d) \<subseteq> pressed_keys (fst (run_events cfg evs s))"
      "k \<in> set (hk_keys d)"
  proof -
    obtain s1 out1 where r: "run_events cfg evs s = (s1, out1)" by (cases "run_events cfg evs s")
    obtain s2 out2 where q: "on_key_release cfg s1 (Inr k) = (s2, out2)"
      by (cases "on_key_release cfg s1 (Inr k)")
    from a(6) r have sup: "set (hk_keys d) \<subseteq> pressed_keys s1" by simp
    have c: "combo_completed_in cfg d evs s"
      by (rule run_events_pressed_superset[OF r sup a(4) refl])
    from run_events_hotkey[OF dist mem a(1,2,5) r] c a(3) act
    have o1: "filter (is_hotkey_signal hid) out1 = [hotkey_pressed hid ''toggle'']" by simp
    from rel[OF a(7), of s1] q
    have o2: "filter (is_hotkey_signal hid) out2 = []" "\<not> has_key (active_combos s2) hid"
      by simp_all
    from r q have "run_events cfg (evs @ [Key_release (Inr k)]) s = (s2, out1 @ out2)"
      by (simp add: run_events_append)
    with o1 o2 show ?thesis by simp
  qed
  have c4: "filter (is_hotkey_signal hid) (snd (event_callback cfg a mev)) = []
              \<and> \<not> has_key (active_combos (fst (event_callback cfg a mev))) hid"
    if a: "releases_combo_key_macos d a mev" "last_modifiers a \<subseteq> modifier_names"
      "hid \<notin> snippet_keys cfg" for a
  proof -
    obtain a' o' where r: "event_callback cfg a mev = (a', o')"
      by (cases "event_callback cfg a mev")
    show ?thesis
      using event_callback_release(1)[OF dist mem a(1,2) r]
        event_callback_release(2)[OF dist mem a(1,2) r a(3)] tg r by simp
  qed
  have c6: "filter (is_hotkey_signal hid) (snd (run_callbacks cfg (mevs @ [mev]) m))
                = [hotkey_pressed hid ''toggle'']
              \<and> \<not> has_key (active_combos (fst (run_callbacks cfg (mevs @ [mev]) m))) hid"
    if a: "hk_enabled d" "hid \<notin> snippet_keys cfg"
      "\<not> has_key (active_combos m) hid"
      "\<not> convert_keys_to_macos (hk_keys d) \<subseteq> pressed_keys m"
      "last_modifiers m \<subseteq> pressed_keys m" "last_modifiers m \<subseteq> modifier_names"
      "list_all accessors_return mevs"
      "\<not> combo_key_released_in_macos cfg d mevs m"
      "convert_keys_to_macos (hk_keys d) \<subseteq> pressed_keys (fst (run_callbacks cfg mevs m))"
      "releases_combo_key_macos d (fst (run_callbacks cfg mevs m)) mev"
  proof -
    obtain m1 out1 where r: "run_callbacks cfg mevs m = (m1, out1)"
      by (cases "run_callbacks cfg mevs m")
    obtain m2 out2 where q: "event_callback cfg m1 mev = (m2, out2)"
      by (cases "event_callback cfg m1 mev")
    from a(9) r have sup: "convert_keys_to_macos (hk_keys d) \<subseteq> pressed_keys m1" by simp
    have c: "combo_completed_in_macos cfg d mevs m"
      by (rule run_callbacks_pressed_superset[OF r a(7) a(5) a(6) sup a(4)])
    from run_callbacks_hotkey[OF dist mem a(1,2,8) r] c a(3) act
    have o1: "filter (is_hotkey_signal hid) out1 = [hotkey_pressed hid ''toggle'']" by simp
    from run_callbacks_invariant[OF r a(7) a(5) a(6)]
    have inv1: "last_modifiers m1 \<subseteq> modifier_names" by simp
    from a(10) r have rl: "releases_combo_key_macos d m1 mev" by simp
    from c4[OF rl inv1 a(2)] q
    have o2: "filter (is_hotkey_signal hid) out2 = []" "\<not> has_key (active_combos m2) hid"
      by simp_all
    from r q have "run_callbacks cfg (mevs @ [mev]) m = (m2, out1 @ out2)"
      by (simp add: run_callbacks_append)
    with o1 o2 show ?thesis by simp
  qed
  show ?thesis
    using rel[of t] c3 c4[of n] c6 run_events_toggle_no_release[OF dist mem tg, of es u]
      run_callbacks_toggle_no_release[OF dist mem tg, of mes v]
    by blast
qed

theorem toggle_once_never_release_witness:
  "filter (is_hotkey_signal ''dictate'')
     (snd (on_key_release example_settings
            \<lparr>pressed_keys = {''alt'', ''d''}, active_combos = [(''dictate'', True)]\<rparr> (Inr ''d''))) = []
   \<and> \<not> has_key (active_combos (fst (on_key_release example_settings
            \<lparr>pressed_keys = {''alt'', ''d''}, active_combos = [(''dictate'', True)]\<rparr> (Inr ''d''))))
          ''dictate''
   \<and> filter (is_hotkey_signal ''dictate'')
        (snd (run_events example_settings (press_dictate_events @ [Key_release (Inr ''d'')]) initial_state))
       = [hotkey_pressed ''dictate'' ''toggle'']
   \<and> \<not> has_key (active_combos (fst (run_events example_settings
            (press_dictate_events @ [Key_release (Inr ''d'')]) initial_state))) ''dictate''
   \<and> filter (is_hotkey_signal ''dictate'')
        (snd (event_callback example_settings
               \<lparr>pressed_keys = {''option'', ''d''}, active_combos = [(''dictate'', True)],
                last_modifiers = {''option''}\<rparr> (Flags_changed (Inr 0)))) = []
   \<and> filter (is_hotkey_signal ''dictate'')
        (snd (run_callbacks example_settings (press_dictate_events_macos @ [Flags_changed (Inr 0)])
               initial_macos_state))
       = [hotkey_pressed ''dictate'' ''toggle'']
   \<and> \<not> has_key (active_combos (fst (run_callbacks example_settings
            (press_dictate_events_macos @ [Flags_changed (Inr 0)]) initial_macos_state))) ''dictate''"
proof -
  let ?t = "\<lparr>pressed_keys = {''alt'', ''d''}, active_combos = [(''dictate'', True)]\<rparr>"
  let ?n = "\<lparr>pressed_keys = {''option'', ''d''}, active_combos = [(''dictate'', True)],
             last_modifiers = {''option''}\<rparr>"
  let ?up = "Flags_changed (Inr 0)"
  have d: "distinct (map fst (keyboard_hotkeys example_settings))"
    and m: "(''dictate'', dictate_config) \<in> set (keyboard_hotkeys example_settings)"
    and tg: "hk_mode dictate_config \<noteq> ''hold''"
    by (simp_all add: example_settings_def dictate_config_def)
  have h1: "''d'' \<in> set (hk_keys dictate_config)" by (simp add: dictate_config_def)
  have h3: "hk_enabled dictate_config" "''dictate'' \<notin> snippet_keys example_settings"
    "\<not> has_key (active_combos initial_state) ''dictate''"
    "\<not> set (hk_keys dictate_config) \<subseteq> pressed_keys initial_state"
    "\<forall>ev \<in> set press_dictate_events. \<not> releases_combo_key dictate_config ev"
    "set (hk_keys dictate_config)
       \<subseteq> pressed_keys (fst (run_events example_settings press_dictate_events initial_state))"
    by code_simp+
  have h4: "releases_combo_key_macos dictate_config ?n ?up" "last_modifiers ?n \<subseteq> modifier_names"
    by code_simp+
  have h6: "\<not> has_key (active_combos initial_macos_state) ''dictate''"
    "\<not> convert_keys_to_macos (hk_keys dictate_config) \<subseteq> pressed_keys initial_macos_state"
    "last_modifiers initial_macos_state \<subseteq> pressed_keys initial_macos_state"
    "last_modifiers initial_macos_state \<subseteq> modifier_names"
    "list_all accessors_return press_dictate_events_macos"
    "\<not> combo_key_released_in_macos example_settings dictate_config press_dictate_events_macos
         initial_macos_state"
    "convert_keys_to_macos (hk_keys dictate_config)
       \<subseteq> pressed_keys (fst (run_callbacks example_settings press_dictate_events_macos
                                 initial_macos_state))"
    "releases_combo_key_macos dictate_config
       (fst (run_callbacks example_settings press_dictate_events_macos initial_macos_state)) ?up"
    by code_simp+
  from toggle_once_never_release[OF d m tg, where k = "''d''" and t = ?t and s = initial_state
      and evs = press_dictate_events and n = ?n and mev = ?up and m = initial_macos_state
      and mevs = press_dictate_events_macos]
    h1 h3 h4 h6
  show ?thesis by simp
qed

section \<open>Claim C6: disabling an active entry\<close>















section \<open>Ids shared between keyboard entries and snippets\<close>

text \<open>
  Claim C2 without the proviso on the id. The enabled hold-mode entry with id "snippet:sig"
  and keys "a", "b", "c" is configured beside the snippet "sig" with keys "a", "b". From the
  initial state the key-downs of "a", "b", "c" contain no release and make the pressed set a
  superset of the keys of the entry, but the listener emits no signal for the entry: the
  key-down of "b" triggers the snippet, which puts "snippet:sig" into the active map, and
  the key-down of "c" finds the id there. The same holds in the macOS listener.
\<close>

theorem subset_match_counterexample:
  "distinct (map fst (keyboard_hotkeys clash_hold_settings))
   \<and> (''snippet:sig'', clash_hold_config) \<in> set (keyboard_hotkeys clash_hold_settings)
   \<and> hk_enabled clash_hold_config
   \<and> ''snippet:sig'' \<in> snippet_keys clash_hold_settings
   \<and> \<not> has_key (active_combos initial_state) ''snippet:sig''
   \<and> filter (releases_combo_key clash_hold_config) press_abc_events = []
   \<and> set (hk_keys clash_hold_config)
       \<subseteq> pressed_keys (fst (run_events clash_hold_settings press_abc_events initial_state))
   \<and> snd (run_events clash_hold_settings press_abc_events initial_state)
       = [snippet_triggered ''sig'' ''Best regards'']
   \<and> filter (is_hotkey_signal ''snippet:sig'')
        (snd (run_events clash_hold_settings press_abc_events initial_state)) = []
   \<and> \<not> has_key (active_combos initial_macos_state) ''snippet:sig''
   \<and> last_modifiers initial_macos_state = {}
   \<and> list_all accessors_return press_abc_events_macos
   \<and> \<not> combo_key_released_in_macos clash_hold_settings clash_hold_config
         press_abc_events_macos initial_macos_state
   \<and> convert_keys_to_macos (hk_keys clash_hold_config)
       \<subseteq> pressed_keys (fst (run_callbacks clash_hold_settings press_abc_events_macos
                                 initial_macos_state))
   \<and> snd (run_callbacks clash_hold_settings press_abc_events_macos initial_macos_state)
       = [snippet_triggered ''sig'' ''Best regards'']
   \<and> filter (is_hotkey_signal ''snippet:sig'')
        (snd (run_callbacks clash_hold_settings press_abc_events_macos initial_macos_state)) = []"
  by code_simp


text \<open>
  Claim C4 without the proviso on the id. The enabled toggle-mode entry with id "snippet:sig"
  and keys "a", "b", "c" is configured beside the snippet "sig" with keys "a", "b". The cycle
  that presses "a", "b", "c" and releases "c" emits no "toggle" (and no other signal) for
  the entry: the snippet put "snippet:sig" into the active map before the entry was
  complete. The same holds in the macOS listener.
\<close>

theorem toggle_once_counterexample:
  "distinct (map fst (keyboard_hotkeys clash_toggle_settings))
   \<and> (''snippet:sig'', clash_toggle_config) \<in> set (keyboard_hotkeys clash_toggle_settings)
   \<and> hk_mode clash_toggle_config = ''toggle''
   \<and> hk_enabled clash_toggle_config
   \<and> ''snippet:sig'' \<in> snippet_keys clash_toggle_settings
   \<and> \<not> has_key (active_combos initial_state) ''snippet:sig''
   \<and> filter (releases_combo_key clash_toggle_config) press_abc_events = []
   \<and> set (hk_keys clash_toggle_config)
       \<subseteq> pressed_keys (fst (run_events clash_toggle_settings press_abc_events initial_state))
   \<and> ''c'' \<in> set (hk_keys clash_toggle_config)
   \<and> snd (run_events clash_toggle_settings (press_abc_events @ [Key_release (Inr ''c'')])
            initial_state)
       = [snippet_triggered ''sig'' ''Best regards'']
   \<and> filter (is_hotkey_signal ''snippet:sig'')
        (snd (run_events clash_toggle_settings (press_abc_events @ [Key_release (Inr ''c'')])
               initial_state)) = []
   \<and> list_all accessors_return press_abc_events_macos
   \<and> \<not> combo_key_released_in_macos clash_toggle_settings clash_toggle_config
         press_abc_events_macos initial_macos_state
   \<and> convert_keys_to_macos (hk_keys clash_toggle_config)
       \<subseteq> pressed_keys (fst (run_callbacks clash_toggle_settings press_abc_events_macos
                                 initial_macos_state))
   \<and> releases_combo_key_macos clash_toggle_config
       (fst (run_callbacks clash_toggle_settings press_abc_events_macos initial_macos_state))
       (Key_up (Inr 8) (Inr 0))
   \<and> snd (run_callbacks clash_toggle_settings (press_abc_events_macos @ [Key_up (Inr 8) (Inr 0)])
            initial_macos_state)
       = [snippet_triggered ''sig'' ''Best regards'']
   \<and> filter (is_hotkey_signal ''snippet:sig'')
        (snd (run_callbacks clash_toggle_settings
               (press_abc_events_macos @ [Key_up (Inr 8) (Inr 0)]) initial_macos_state)) = []"
  by code_simp

section \<open>Claim C7: the released key leaves the pressed set last\<close>





section \<open>Claim C1: the modifier guard of hold mode\<close>

text \<open>
  The guard of \<open>_on_key_release\<close> in the pynput listener. For a hold-mode entry \<open>d\<close> with a
  non-modifier key and a unique id \<open>hid\<close>: a release that the guard skips (the released key is
  not a non-modifier key of \<open>d\<close>, or another non-modifier key of \<open>d\<close> remains pressed) emits
  nothing for \<open>hid\<close> and, when no snippet shares the id, leaves the active map as it is at
  \<open>hid\<close>; and \<open>hid\<close> leaves the active map only with "release" emitted, at the release of a
  non-modifier key of \<open>d\<close> that leaves none of them pressed.
\<close>

lemma on_key_release_modifier_guard:
  assumes dist: "distinct (map fst (keyboard_hotkeys cfg))"
    and mem: "(hid, d) \<in> set (keyboard_hotkeys cfg)"
    and hold: "hk_mode d = ''hold''"
    and nm: "non_modifier_keys (hk_keys d) \<noteq> {}"
    and free: "hid \<notin> snippet_keys cfg"
    and run: "on_key_release cfg s (Inr k) = (s', out)"
  shows "k \<notin> non_modifier_keys (hk_keys d)
           \<or> (pressed_keys s - {k}) \<inter> non_modifier_keys (hk_keys d) \<noteq> {}
         \<Longrightarrow> filter (is_hotkey_signal hid) out = []
             \<and> has_key (active_combos s') hid = has_key (active_combos s) hid"
    and "has_key (active_combos s) hid \<Longrightarrow> \<not> has_key (active_combos s') hid
         \<Longrightarrow> k \<in> non_modifier_keys (hk_keys d)
             \<and> (pressed_keys s - {k}) \<inter> non_modifier_keys (hk_keys d) = {}
             \<and> filter (is_hotkey_signal hid) out = [hotkey_pressed hid ''release'']"
proof -
  note a = on_key_release_hotkey(2)[OF dist mem run]
  note b = on_key_release_hotkey(4)[OF dist mem run free]
  have sk: "release_skipped d (pressed_keys s) k \<longleftrightarrow>
              (k \<notin> non_modifier_keys (hk_keys d)
               \<or> (pressed_keys s - {k}) \<inter> non_modifier_keys (hk_keys d) \<noteq> {})"
    using hold nm by (simp add: release_skipped_def)
  show "filter (is_hotkey_signal hid) out = []
             \<and> has_key (active_combos s') hid = has_key (active_combos s) hid"
    if "k \<notin> non_modifier_keys (hk_keys d)
           \<or> (pressed_keys s - {k}) \<inter> non_modifier_keys (hk_keys d) \<noteq> {}"
    using that a b sk by simp
  show "k \<in> non_modifier_keys (hk_keys d)
             \<and> (pressed_keys s - {k}) \<inter> non_modifier_keys (hk_keys d) = {}
             \<and> filter (is_hotkey_signal hid) out = [hotkey_pressed hid ''release'']"
    if "has_key (active_combos s) hid" "\<not> has_key (active_combos s') hid"
    using that a b sk hold by auto
qed

text \<open>
  Claim C1 on its own sequence, from the initial state with the example configuration.
  pynput listener: the key-downs of "ctrl", "shift", "x" emit "press"; the key-up of "shift"
  emits nothing and leaves the combination active; the key-up of "x" then emits the one
  "release". macOS listener: the same key-downs emit "press"; the release of shift, a change of
  the flags, already removes the combination from the active map and emits "release", with
  "x" still pressed, because \<open>check_releases\<close> has no guard; the key-up of "x" then emits
  nothing.
\<close>

theorem modifier_release_trace:
  "snd (run_events example_settings hold_talk_events initial_state)
     = [hotkey_pressed ''talk'' ''press'']
   \<and> handle_event example_settings
       (fst (run_events example_settings hold_talk_events initial_state))
       (Key_release (Inr ''shift''))
     = (\<lparr>pressed_keys = {''ctrl'', ''x''}, active_combos = [(''talk'', True)]\<rparr>, [])
   \<and> handle_event example_settings
       \<lparr>pressed_keys = {''ctrl'', ''x''}, active_combos = [(''talk'', True)]\<rparr>
       (Key_release (Inr ''x''))
     = (\<lparr>pressed_keys = {''ctrl''}, active_combos = []\<rparr>, [hotkey_pressed ''talk'' ''release''])
   \<and> snd (run_events example_settings
            (hold_talk_events @ [Key_release (Inr ''shift''), Key_release (Inr ''x'')])
            initial_state)
     = [hotkey_pressed ''talk'' ''press'', hotkey_pressed ''talk'' ''release'']
   \<and> run_callbacks example_settings hold_talk_events_macos initial_macos_state
     = (\<lparr>pressed_keys = {''control'', ''shift'', ''x''}, active_combos = [(''talk'', True)],
         last_modifiers = {''control'', ''shift''}\<rparr>,
        [hotkey_pressed ''talk'' ''press''])
   \<and> event_callback example_settings
       \<lparr>pressed_keys = {''control'', ''shift'', ''x''}, active_combos = [(''talk'', True)],
        last_modifiers = {''control'', ''shift''}\<rparr>
       (Flags_changed (Inr 262144))
     = (\<lparr>pressed_keys = {''control'', ''x''}, active_combos = [],
         last_modifiers = {''control''}\<rparr>,
        [hotkey_pressed ''talk'' ''release''])
   \<and> event_callback example_settings
       \<lparr>pressed_keys = {''control'', ''x''}, active_combos = [],
        last_modifiers = {''control''}\<rparr>
       (Key_up (Inr 7) (Inr 262144))
     = (\<lparr>pressed_keys = {''control''}, active_combos = [], last_modifiers = {''control''}\<rparr>, [])
   \<and> snd (run_callbacks example_settings
            (hold_talk_events_macos @ [Flags_changed (Inr 262144), Key_up (Inr 7) (Inr 262144)])
            initial_macos_state)
     = [hotkey_pressed ''talk'' ''press'', hotkey_pressed ''talk'' ''release'']"
  by code_simp

section \<open>Claim C5: an event whose handling raises\<close>










end
